theory Spec2Isabelle
  imports Complex_Main
begin

section \<open>Python strings and \<open>int()\<close>\<close>

text \<open>
  A Python \<open>str\<close> is modelled as a \<open>string\<close>; a \<open>char\<close> stands for a code point
  below 256. \<open>str_space\<close> is the whitespace that \<open>str.strip()\<close> removes in that range,
  \<open>int_space\<close> the whitespace that \<open>int()\<close> skips at both ends of its argument
  (the code points 28 to 31 are stripped by \<open>strip\<close> but refused by \<open>int\<close>).
\<close>

datatype error = ValueError | AttributeError | KeyError | TypeError
  | ConnectionError | JSONDecodeError | DeviceError | OverflowError

definition str_space :: "char \<Rightarrow> bool" where
  "str_space c = (of_char c \<in> {9, 10, 11, 12, 13, 28, 29, 30, 31, 32, 133, 160 :: nat})"

definition int_space :: "char \<Rightarrow> bool" where
  "int_space c = (of_char c \<in> {9, 10, 11, 12, 13, 32, 133, 160 :: nat})"

definition is_digit :: "char \<Rightarrow> bool" where
  "is_digit c = (48 \<le> (of_char c :: nat) \<and> (of_char c :: nat) \<le> 57)"

definition digit_val :: "char \<Rightarrow> int" where
  "digit_val c = int (of_char c) - 48"

text \<open>\<open>s.strip()\<close>: whitespace removed at both ends.\<close>

definition strip :: "string \<Rightarrow> string" where
  "strip s = rev (dropWhile str_space (rev (dropWhile str_space s)))"

text \<open>\<open>s.split(sep)\<close> for a one-character separator: every occurrence splits, and the
  result is never empty (\<open>''''.split(':')\<close> is \<open>['''']\<close>).\<close>

fun split_on :: "char \<Rightarrow> string \<Rightarrow> string list" where
  "split_on sep [] = [[]]"
| "split_on sep (c # cs) =
     (if c = sep then [] # split_on sep cs
      else (case split_on sep cs of
              [] \<Rightarrow> [[c]]
            | p # ps \<Rightarrow> (c # p) # ps))"

text \<open>
  The digits of a decimal literal, with Python's grouping rule: a single underscore may
  stand between two digits, never first, last or doubled. \<open>digits_acc acc s\<close> reads
  \<open>s\<close> after at least one digit has been read into \<open>acc\<close>.
\<close>

fun digits_acc :: "int \<Rightarrow> string \<Rightarrow> int option" where
  "digits_acc acc [] = Some acc"
| "digits_acc acc [c] = (if is_digit c then Some (acc * 10 + digit_val c) else None)"
| "digits_acc acc (c # d # cs) =
     (if is_digit c then digits_acc (acc * 10 + digit_val c) (d # cs)
      else if c = CHR ''_'' \<and> is_digit d then digits_acc (acc * 10 + digit_val d) cs
      else None)"

definition py_digits :: "string \<Rightarrow> int option" where
  "py_digits s =
     (case s of
        [] \<Rightarrow> None
      | c # cs \<Rightarrow> if is_digit c then digits_acc (digit_val c) cs else None)"

text \<open>\<open>int(s)\<close> in base 10: whitespace at both ends, one optional sign, then the digits.
  \<open>None\<close> is Python's \<open>ValueError\<close>.\<close>

definition py_int :: "string \<Rightarrow> int option" where
  "py_int s =
     (let t = rev (dropWhile int_space (rev (dropWhile int_space s)))
      in case t of
           [] \<Rightarrow> None
         | c # cs \<Rightarrow>
             if c = CHR ''+'' then py_digits cs
             else if c = CHR ''-'' then map_option uminus (py_digits cs)
             else py_digits t)"

section \<open>\<open>parse_time\<close>\<close>

text \<open>
  \<^verbatim>\<open>base = t_str.split('(')[0].strip()\<close>,
  \<^verbatim>\<open>hh_str, mm_str = base.split(":")\<close>,
  \<^verbatim>\<open>return int(hh_str), int(mm_str)\<close>.
  The first piece of \<open>split('(')\<close> is the text before the first parenthesis. Unpacking
  into two names raises \<open>ValueError\<close> unless there are exactly two pieces, and so does
  \<open>int\<close> on a piece that is no integer literal.
\<close>

definition parse_time :: "string \<Rightarrow> error + (int \<times> int)" where
  "parse_time t_str =
     (let base = strip (hd (split_on CHR ''('' t_str))
      in case split_on CHR '':'' base of
           [hh_str, mm_str] \<Rightarrow>
             (case py_int hh_str of
                None \<Rightarrow> Inl ValueError
              | Some hh \<Rightarrow>
                  (case py_int mm_str of
                     None \<Rightarrow> Inl ValueError
                   | Some mm \<Rightarrow> Inr (hh, mm)))
         | _ \<Rightarrow> Inl ValueError)"

text \<open>
  The words of the specification about \<open>parse_time\<close>, for comparison with the code:
  \<open>decimal\<close> is the number a string of digits denotes, \<open>annotation_stripped\<close> the
  text before the first parenthesis without the whitespace around it, and
  \<open>two_int_parts\<close> says that a text has exactly one colon with an integer literal on
  each side of it.
\<close>

definition decimal :: "string \<Rightarrow> int" where
  "decimal ds = foldl (\<lambda>a c. a * 10 + digit_val c) 0 ds"

definition annotation_stripped :: "string \<Rightarrow> string" where
  "annotation_stripped t_str = strip (takeWhile (\<lambda>c. c \<noteq> CHR ''('') t_str)"

definition two_int_parts :: "string \<Rightarrow> bool" where
  "two_int_parts base =
     (count_list base CHR '':'' = 1
      \<and> py_int (takeWhile (\<lambda>c. c \<noteq> CHR '':'') base) \<noteq> None
      \<and> py_int (tl (dropWhile (\<lambda>c. c \<noteq> CHR '':'') base)) \<noteq> None)"

section \<open>Dates and instants\<close>

text \<open>
  A \<open>datetime.date\<close> is the ordinal of its calendar day and a naive
  \<open>datetime.datetime\<close> a count of microseconds since midnight of day 0, so that comparison
  and \<open>timedelta\<close> arithmetic are those of the integers. The calendar bounds (years 1 to
  9999) are not part of the model. \<open>date_obj.year, date_obj.month, date_obj.day\<close> name the
  day \<open>date_obj\<close> again. The constructor \<open>datetime.datetime(y, m, d, hh, mm)\<close> first
  converts its arguments to C integers and raises \<open>OverflowError\<close> for an hour or a
  minute that does not fit into 32 bits; it then raises \<open>ValueError\<close> for an hour
  outside 0..23 or a minute outside 0..59.
\<close>

type_synonym date = int
type_synonym instant = int
type_synonym hhmm = "int \<times> int"

definition usec_per_second :: int where "usec_per_second = 1000000"
definition usec_per_minute :: int where "usec_per_minute = 60000000"
definition usec_per_hour :: int where "usec_per_hour = 3600000000"
definition usec_per_day :: int where "usec_per_day = 86400000000"

definition at_hhmm :: "date \<Rightarrow> hhmm \<Rightarrow> instant" where
  "at_hhmm d t = d * usec_per_day + fst t * usec_per_hour + snd t * usec_per_minute"

definition c_int :: "int \<Rightarrow> bool" where
  "c_int x = (- 2147483648 \<le> x \<and> x \<le> 2147483647)"

definition datetime :: "date \<Rightarrow> int \<Rightarrow> int \<Rightarrow> error + instant" where
  "datetime d hh mm =
     (if \<not> (c_int hh \<and> c_int mm) then Inl OverflowError
      else if 0 \<le> hh \<and> hh \<le> 23 \<and> 0 \<le> mm \<and> mm \<le> 59 then Inr (at_hhmm d (hh, mm))
      else Inl ValueError)"

definition date_of :: "instant \<Rightarrow> date" where
  "date_of t = t div usec_per_day"

text \<open>\<open>dt.strftime("%H:%M")\<close>: the hour and the minute of the wall-clock time, kept as a
  pair instead of the five characters; seconds are dropped.\<close>

definition strftime_HM :: "instant \<Rightarrow> hhmm" where
  "strftime_HM t =
     ((t mod usec_per_day) div usec_per_hour, ((t mod usec_per_day) div usec_per_minute) mod 60)"

section \<open>The world: clock, pending jobs, output\<close>

type_synonym volume = real

datatype log_msg =
    LogFetching date
  | LogNoValidTimes
  | LogSearching
  | LogFoundDevices nat
  | LogDeviceMissing
  | LogTargetFound
  | LogStartingAzan
  | LogAborting
  | LogOriginalVolume volume
  | LogVolumeSet
  | LogSetVolumeFailed
  | LogAttemptPlay
  | LogPlaying
  | LogPlayError
  | LogVolumeRestored volume
  | LogRestoreFailed
  | LogPlayAzanError
  | LogCheckTest string
  | LogTestInvalid string
  | LogTestScheduled hhmm
  | LogTestPassed string
  | LogScheduling date
  | LogPrayerTime string
  | LogAzanScheduled string hhmm
  | LogReminderSet string hhmm
  | LogPrayerPassed string
  | LogReminder string hhmm
  | LogRetryInHour
  | LogIshaPassed

datatype dev_call =
    GetChromecasts
  | WaitReady
  | ReadVolume
  | SetVolume volume
  | PlayMedia string string
  | PlayCmd

text \<open>What the process does to the outside: a printed line, a call on the device
  (with whether it returned normally), a \<open>time.sleep\<close> in seconds, an HTTP request for
  the times of a date.\<close>

datatype effect =
    Print log_msg
  | Call dev_call bool
  | Sleep nat
  | HttpGet date

text \<open>The function a job runs: \<open>play_azan\<close>, or the \<open>reminder_closure\<close> with the
  prayer name and alert time it has captured.\<close>

datatype action = PlayAzan | Reminder string hhmm

text \<open>A job of the \<open>schedule\<close> library as \<open>every().day.at(t).do(f)\<close> makes it: the
  time of day, the function, and the instant of its next run.\<close>

record job =
  at_time :: hhmm
  next_run :: instant
  job_func :: action

text \<open>\<open>clock\<close> is what \<open>datetime.datetime.now()\<close> returns; it advances by the
  duration of every \<open>time.sleep\<close> and stands still otherwise. \<open>jobs\<close> is the job list of
  the default scheduler; \<open>fired\<close> records every job run, with the instant of the run.\<close>

record world =
  clock :: instant
  jobs :: "job list"
  trace :: "effect list"
  fired :: "(instant \<times> job) list"

definition emit :: "effect \<Rightarrow> world \<Rightarrow> world" where
  "emit e w = w\<lparr>trace := trace w @ [e]\<rparr>"

definition sleep :: "nat \<Rightarrow> world \<Rightarrow> world" where
  "sleep n w = w\<lparr>clock := clock w + int n * usec_per_second, trace := trace w @ [Sleep n]\<rparr>"

fun perform :: "effect list \<Rightarrow> world \<Rightarrow> world" where
  "perform [] w = w"
| "perform (Sleep n # es) w = perform es (sleep n w)"
| "perform (e # es) w = perform es (emit e w)"

section \<open>The \<open>schedule\<close> library\<close>

text \<open>\<open>_schedule_next_run\<close> of a daily job with an \<open>at\<close> time: the given time today
  when that is still ahead of the clock, otherwise the same time tomorrow.\<close>

definition next_occurrence :: "instant \<Rightarrow> hhmm \<Rightarrow> instant" where
  "next_occurrence now t =
     (let today = at_hhmm (date_of now) t
      in if now < today then today else today + usec_per_day)"

definition every_day_at_do :: "hhmm \<Rightarrow> action \<Rightarrow> world \<Rightarrow> world" where
  "every_day_at_do t f w =
     w\<lparr>jobs := jobs w @ [\<lparr>at_time = t, next_run = next_occurrence (clock w) t, job_func = f\<rparr>]\<rparr>"

definition schedule_clear :: "world \<Rightarrow> world" where
  "schedule_clear w = w\<lparr>jobs := []\<rparr>"

section \<open>The device: \<open>connect_to_google_home\<close> and \<open>play_azan\<close>\<close>

text \<open>
  How the device answers during one run of \<open>play_azan\<close>: the names discovery returns
  (\<open>None\<close> when \<open>get_chromecasts\<close> raises), whether \<open>cast.wait()\<close> returns, the volume
  level read from \<open>cast.status\<close> (\<open>None\<close> when reading or printing it raises), and
  whether each of the four commands returns normally.
\<close>

record device_behaviour =
  discovered :: "string list option"
  wait_ok :: bool
  volume_level :: "volume option"
  set_azan_ok :: bool
  play_media_ok :: bool
  play_ok :: bool
  restore_ok :: bool

definition AZAN_URL :: string where
  "AZAN_URL = ''https://www.islamcan.com/audio/adhan/azan1.mp3''"

definition AZAN_VOLUME :: volume where
  "AZAN_VOLUME = 1"

text \<open>The result is \<open>Inr True\<close> for a device handle, \<open>Inr False\<close> for \<open>None\<close> and
  \<open>Inl\<close> for an exception.\<close>

definition connect_to_google_home ::
  "string \<Rightarrow> device_behaviour \<Rightarrow> effect list \<times> (error + bool)" where
  "connect_to_google_home target dev =
     (case discovered dev of
        None \<Rightarrow> ([Print LogSearching, Call GetChromecasts False], Inl DeviceError)
      | Some names \<Rightarrow>
          (let found = [Print LogSearching, Call GetChromecasts True,
                        Print (LogFoundDevices (length names))]
           in if target \<notin> set names then (found @ [Print LogDeviceMissing], Inr False)
              else if wait_ok dev
                then (found @ [Print LogTargetFound, Call WaitReady True], Inr True)
                else (found @ [Print LogTargetFound, Call WaitReady False], Inl DeviceError)))"

definition play_azan :: "string \<Rightarrow> device_behaviour \<Rightarrow> effect list" where
  "play_azan target dev =
     Print LogStartingAzan #
     (case connect_to_google_home target dev of
        (es, Inl e) \<Rightarrow> es @ [Print LogPlayAzanError]
      | (es, Inr False) \<Rightarrow> es @ [Print LogAborting]
      | (es, Inr True) \<Rightarrow> es @
          (case volume_level dev of
             None \<Rightarrow> [Call ReadVolume False, Print LogPlayAzanError]
           | Some original_volume \<Rightarrow>
               [Call ReadVolume True, Print (LogOriginalVolume original_volume)]
               @ (if set_azan_ok dev
                  then [Call (SetVolume AZAN_VOLUME) True, Print LogVolumeSet]
                  else [Call (SetVolume AZAN_VOLUME) False, Print LogSetVolumeFailed])
               @ [Print LogAttemptPlay]
               @ (if play_media_ok dev
                  then [Call (PlayMedia AZAN_URL ''audio/mp3'') True, Sleep 2]
                       @ (if play_ok dev then [Call PlayCmd True, Print LogPlaying]
                          else [Call PlayCmd False, Print LogPlayError])
                  else [Call (PlayMedia AZAN_URL ''audio/mp3'') False, Print LogPlayError])
               @ [Sleep 180]
               @ (if restore_ok dev
                  then [Call (SetVolume original_volume) True,
                        Print (LogVolumeRestored original_volume)]
                  else [Call (SetVolume original_volume) False, Print LogRestoreFailed])))"

text \<open>The arguments of the \<open>set_volume\<close> calls of a run, in the order of the calls.\<close>

fun volume_calls :: "effect list \<Rightarrow> volume list" where
  "volume_calls [] = []"
| "volume_calls (Call (SetVolume v) ok # es) = v # volume_calls es"
| "volume_calls (e # es) = volume_calls es"

section \<open>The time source: \<open>get_prayer_times_for_date\<close>\<close>

datatype json =
    JNull
  | JBool bool
  | JNum int
  | JStr string
  | JArr "json list"
  | JObj "(string \<times> json) list"

text \<open>\<open>requests.get\<close> raises, or returns a response with a status code and a body;
  the body is \<open>None\<close> when \<open>resp.json()\<close> raises on it.\<close>

datatype http_result = RequestRaises | Response int "json option"

definition err_bind :: "error + 'a \<Rightarrow> ('a \<Rightarrow> error + 'b) \<Rightarrow> error + 'b" where
  "err_bind r f = (case r of Inl e \<Rightarrow> Inl e | Inr x \<Rightarrow> f x)"

definition is_substring :: "string \<Rightarrow> string \<Rightarrow> bool" where
  "is_substring k s = list_ex (\<lambda>i. take (length k) (drop i s) = k) [0..<Suc (length s)]"

text \<open>\<open>k in x\<close> and \<open>x[k]\<close> for a string \<open>k\<close> and a decoded JSON value \<open>x\<close>: a dict
  answers by key, a list by element and only to \<open>in\<close>, a string by substring and only to
  \<open>in\<close>; everything else raises \<open>TypeError\<close>.\<close>

fun py_in :: "string \<Rightarrow> json \<Rightarrow> error + bool" where
  "py_in k (JObj kvs) = Inr (k \<in> set (map fst kvs))"
| "py_in k (JArr xs) = Inr (JStr k \<in> set xs)"
| "py_in k (JStr s) = Inr (is_substring k s)"
| "py_in k x = Inl TypeError"

fun py_getitem :: "json \<Rightarrow> string \<Rightarrow> error + json" where
  "py_getitem (JObj kvs) k = (case map_of kvs k of None \<Rightarrow> Inl KeyError | Some v \<Rightarrow> Inr v)"
| "py_getitem x k = Inl TypeError"

type_synonym prayer_times = "(string \<times> json) list"

text \<open>The part of \<open>get_prayer_times_for_date\<close> after the request: \<open>Inr None\<close> is the
  function's \<open>return None\<close>, \<open>Inl\<close> an exception it lets through.\<close>

definition timings_of_response :: "http_result \<Rightarrow> error + prayer_times option" where
  "timings_of_response r =
     (case r of
        RequestRaises \<Rightarrow> Inl ConnectionError
      | Response status_code body \<Rightarrow>
          if status_code = 200 then
            (case body of
               None \<Rightarrow> Inl JSONDecodeError
             | Some data \<Rightarrow>
                 err_bind (py_in ''data'' data) (\<lambda>has_data.
                 if \<not> has_data then Inr None else
                 err_bind (py_getitem data ''data'') (\<lambda>d.
                 err_bind (py_in ''timings'' d) (\<lambda>has_timings.
                 if \<not> has_timings then Inr None else
                 err_bind (py_getitem d ''timings'') (\<lambda>t.
                 err_bind (py_getitem t ''Fajr'') (\<lambda>fajr.
                 err_bind (py_getitem t ''Dhuhr'') (\<lambda>dhuhr.
                 err_bind (py_getitem t ''Asr'') (\<lambda>asr.
                 err_bind (py_getitem t ''Maghrib'') (\<lambda>maghrib.
                 err_bind (py_getitem t ''Isha'') (\<lambda>isha.
                 Inr (Some [(''Fajr'', fajr), (''Dhuhr'', dhuhr), (''Asr'', asr),
                            (''Maghrib'', maghrib), (''Isha'', isha)])))))))))))
          else Inr None)"

text \<open>
  The surroundings of a run: what the time source answers to a request made at a given
  instant for a given date (city, country and method are fixed for the run), how the
  device behaves during a \<open>play_azan\<close> started at a given instant, and the two
  configuration constants \<open>TEST_TIME\<close> and \<open>TARGET_DEVICE_NAME\<close>.
\<close>

record env =
  provider :: "instant \<Rightarrow> date \<Rightarrow> http_result"
  device :: "instant \<Rightarrow> device_behaviour"
  TEST_TIME :: string
  TARGET_DEVICE_NAME :: string

definition get_prayer_times_for_date ::
  "env \<Rightarrow> date \<Rightarrow> world \<Rightarrow> error + (prayer_times option \<times> world)" where
  "get_prayer_times_for_date en date_obj w =
     (let w1 = emit (HttpGet date_obj) (emit (Print (LogFetching date_obj)) w)
      in case timings_of_response (provider en (clock w) date_obj) of
           Inl e \<Rightarrow> Inl e
         | Inr (Some timings) \<Rightarrow> Inr (Some timings, w1)
         | Inr None \<Rightarrow> Inr (None, emit (Print LogNoValidTimes) w1))"

section \<open>Building the day's events\<close>

text \<open>\<open>parse_time\<close> applied to a value of the timings: a value that is no string has no
  \<open>split\<close> method.\<close>

fun parse_time_of :: "json \<Rightarrow> error + (int \<times> int)" where
  "parse_time_of (JStr t_str) = parse_time t_str"
| "parse_time_of x = Inl AttributeError"

definition schedule_test_time :: "date \<Rightarrow> string \<Rightarrow> world \<Rightarrow> error + world" where
  "schedule_test_time date_obj test_time_str w =
     (if test_time_str = [] then Inr w
      else
        (let w1 = emit (Print (LogCheckTest test_time_str)) w
         in case parse_time test_time_str of
              Inl e \<Rightarrow> Inr (emit (Print (LogTestInvalid test_time_str)) w1)
            | Inr (hh, mm) \<Rightarrow>
                err_bind (datetime date_obj hh mm) (\<lambda>dt_test.
                let now = clock w1 in
                if dt_test > now then
                  (let sch_time = strftime_HM dt_test
                   in Inr (emit (Print (LogTestScheduled sch_time))
                             (every_day_at_do sch_time PlayAzan w1)))
                else Inr (emit (Print (LogTestPassed test_time_str)) w1))))"

text \<open>The body of the second loop of \<open>schedule_daily_prayers\<close>, for one item of the
  dictionary.\<close>

definition schedule_prayer :: "date \<Rightarrow> string \<times> json \<Rightarrow> world \<Rightarrow> error + world" where
  "schedule_prayer date_obj item w =
     (case item of (prayer, t_str) \<Rightarrow>
        err_bind (parse_time_of t_str) (\<lambda>(hh, mm).
        err_bind (datetime date_obj hh mm) (\<lambda>dt_prayer.
        let dt_one_min_early = dt_prayer - usec_per_minute;
            now = clock w
        in if dt_one_min_early > now then
             (let sch_time = strftime_HM dt_one_min_early;
                  w1 = emit (Print (LogAzanScheduled prayer sch_time))
                         (every_day_at_do sch_time PlayAzan w);
                  ten_min_before = dt_prayer - 10 * usec_per_minute
              in if ten_min_before > now then
                   (let ten_min_notice = strftime_HM ten_min_before
                    in Inr (emit (Print (LogReminderSet prayer ten_min_notice))
                              (every_day_at_do ten_min_notice (Reminder prayer sch_time) w1)))
                 else Inr w1)
           else Inr (emit (Print (LogPrayerPassed prayer)) w))))"

fun schedule_prayers :: "date \<Rightarrow> prayer_times \<Rightarrow> world \<Rightarrow> error + world" where
  "schedule_prayers date_obj [] w = Inr w"
| "schedule_prayers date_obj (item # items) w =
     err_bind (schedule_prayer date_obj item w) (schedule_prayers date_obj items)"

definition schedule_daily_prayers :: "date \<Rightarrow> prayer_times \<Rightarrow> world \<Rightarrow> error + world" where
  "schedule_daily_prayers date_obj prayer_times w =
     schedule_prayers date_obj prayer_times
       (perform (Print (LogScheduling date_obj)
                 # map (\<lambda>(p, t_str). Print (LogPrayerTime p)) prayer_times) w)"

section \<open>Running the jobs\<close>

definition run_action :: "env \<Rightarrow> action \<Rightarrow> world \<Rightarrow> world" where
  "run_action en f w =
     (case f of
        PlayAzan \<Rightarrow> perform (play_azan (TARGET_DEVICE_NAME en) (device en (clock w))) w
      | Reminder pr sch \<Rightarrow> emit (Print (LogReminder pr sch)) w)"

text \<open>\<open>_run_job\<close> on the job at position \<open>i\<close>: the function runs, then the job's next
  run is computed from the clock as it stands after the run.\<close>

definition run_job :: "env \<Rightarrow> nat \<Rightarrow> world \<Rightarrow> world" where
  "run_job en i w =
     (let j = jobs w ! i;
          w1 = run_action en (job_func j) (w\<lparr>fired := fired w @ [(clock w, j)]\<rparr>)
      in w1\<lparr>jobs := (jobs w1)[i := j\<lparr>next_run := next_occurrence (clock w1) (at_time j)\<rparr>]\<rparr>)"

text \<open>\<open>run_pending\<close>: the jobs whose next run is not after the clock are collected
  first, then run in the order of their next runs (a stable sort).\<close>

definition run_pending :: "env \<Rightarrow> world \<Rightarrow> world" where
  "run_pending en w =
     (let runnable = filter (\<lambda>i. next_run (jobs w ! i) \<le> clock w) [0..<length (jobs w)]
      in fold (run_job en) (sort_key (\<lambda>i. next_run (jobs w ! i)) runnable) w)"


section \<open>The events of a day, as the specification words them\<close>

text \<open>The instant of a prayer on the scheduled date: what \<open>parse_time\<close> and the
  \<open>datetime\<close> constructor make of the time string.\<close>

definition prayer_instant :: "date \<Rightarrow> json \<Rightarrow> error + instant" where
  "prayer_instant date_obj t_str =
     err_bind (parse_time_of t_str) (\<lambda>(hh, mm). datetime date_obj hh mm)"

text \<open>
  The specification's \<open>buildDailyEvents\<close> for one prayer with instant \<open>p\<close>: a
  primary alert at \<open>p\<close> minus one minute if that is still ahead of \<open>now\<close>, and
  additionally a reminder at \<open>p\<close> minus ten minutes if that is still ahead. An event is
  the function to run and the instant of its run.
\<close>

definition spec_events :: "instant \<Rightarrow> string \<times> instant \<Rightarrow> (action \<times> instant) list" where
  "spec_events now np =
     (case np of (prayer, p) \<Rightarrow>
        (if now < p - usec_per_minute then [(PlayAzan, p - usec_per_minute)] else [])
        @ (if now < p - 10 * usec_per_minute
           then [(Reminder prayer (strftime_HM (p - usec_per_minute)), p - 10 * usec_per_minute)]
           else []))"

text \<open>The same events in the nesting of the code, where the reminder is considered
  only once the alert is scheduled.\<close>

definition expected_events :: "instant \<Rightarrow> string \<times> instant \<Rightarrow> (action \<times> instant) list" where
  "expected_events now np =
     (case np of (prayer, p) \<Rightarrow>
        if now < p - usec_per_minute then
          (PlayAzan, p - usec_per_minute)
          # (if now < p - 10 * usec_per_minute
             then [(Reminder prayer (strftime_HM (p - usec_per_minute)), p - 10 * usec_per_minute)]
             else [])
        else [])"

text \<open>The events a list of jobs stands for; the first runs of the \<open>play_azan\<close> jobs
  and of the reminder jobs.\<close>

definition scheduled :: "job list \<Rightarrow> (action \<times> instant) list" where
  "scheduled js = map (\<lambda>j. (job_func j, next_run j)) js"

definition alert_runs :: "job list \<Rightarrow> instant list" where
  "alert_runs js = map next_run (filter (\<lambda>j. job_func j = PlayAzan) js)"

definition reminder_runs :: "job list \<Rightarrow> instant list" where
  "reminder_runs js = map next_run (filter (\<lambda>j. job_func j \<noteq> PlayAzan) js)"

text \<open>The jobs one item of the dictionary adds when the clock shows \<open>now\<close>, read off
  \<open>schedule_prayer\<close>.\<close>

definition prayer_jobs :: "instant \<Rightarrow> string \<times> instant \<Rightarrow> job list" where
  "prayer_jobs now np =
     (case np of (prayer, p) \<Rightarrow>
        if now < p - usec_per_minute then
          \<lparr>at_time = strftime_HM (p - usec_per_minute),
            next_run = next_occurrence now (strftime_HM (p - usec_per_minute)),
            job_func = PlayAzan\<rparr>
          # (if now < p - 10 * usec_per_minute
             then [\<lparr>at_time = strftime_HM (p - 10 * usec_per_minute),
                    next_run = next_occurrence now (strftime_HM (p - 10 * usec_per_minute)),
                    job_func = Reminder prayer (strftime_HM (p - usec_per_minute))\<rparr>]
             else [])
        else [])"

text \<open>Two sets of times and a world with nothing pending, for the examples: the
  end-to-end scenario of the specification, and a day whose Isha is three minutes later
  than the day before.\<close>

definition example_times :: prayer_times where
  "example_times =
     [(''Fajr'', JStr ''05:12''), (''Dhuhr'', JStr ''13:05''), (''Asr'', JStr ''16:40''),
      (''Maghrib'', JStr ''19:58''), (''Isha'', JStr ''21:20'')]"

definition world_at :: "instant \<Rightarrow> world" where
  "world_at t = \<lparr>clock = t, jobs = [], trace = [], fired = []\<rparr>"

definition late_isha_times :: prayer_times where
  "late_isha_times =
     [(''Fajr'', JStr ''05:12''), (''Dhuhr'', JStr ''13:05''), (''Asr'', JStr ''16:40''),
      (''Maghrib'', JStr ''19:58''), (''Isha'', JStr ''21:23'')]"

text \<open>The dates the controller has worked on, read off the output: one entry for every
  request sent and one for every day scheduled.\<close>

fun dated :: "effect \<Rightarrow> date list" where
  "dated (HttpGet d) = [d]"
| "dated (Print (LogScheduling d)) = [d]"
| "dated e = []"

definition dates_handled :: "world \<Rightarrow> date list" where
  "dates_handled w = concat (map dated (trace w))"

text \<open>
  Surroundings for the examples: a response body with the given timings, a device that
  answers every call, a time source that has times for one day only and answers 503
  for any other, and the run of the source's configuration with a chosen time source
  and test time. Two more sets of times: one whose Isha falls after midnight, one with
  a Fajr string that is no time.
\<close>

definition timings_json :: "prayer_times \<Rightarrow> json" where
  "timings_json timings = JObj [(''data'', JObj [(''timings'', JObj timings)])]"

definition example_device :: device_behaviour where
  "example_device =
     \<lparr>discovered = Some [''Parents Room speaker''], wait_ok = True,
      volume_level = Some (4 / 10), set_azan_ok = True, play_media_ok = True,
      play_ok = True, restore_ok = True\<rparr>"

definition example_env :: "(date \<Rightarrow> http_result) \<Rightarrow> string \<Rightarrow> env" where
  "example_env answer test_time =
     \<lparr>provider = (\<lambda>t. answer), device = (\<lambda>t. example_device),
      TEST_TIME = test_time, TARGET_DEVICE_NAME = ''Parents Room speaker''\<rparr>"

definition answer_on :: "date \<Rightarrow> prayer_times \<Rightarrow> date \<Rightarrow> http_result" where
  "answer_on day timings d =
     (if d = day then Response 200 (Some (timings_json timings)) else Response 503 None)"

definition every_day :: "prayer_times \<Rightarrow> date \<Rightarrow> http_result" where
  "every_day timings d = Response 200 (Some (timings_json timings))"

text \<open>The runs of \<open>play_azan\<close> so far: the instant each was started and the time of day
  its job was registered for. And the first \<open>k\<close> rounds of the inner loop, without the
  check against Isha.\<close>

definition azans_started :: "world \<Rightarrow> (instant \<times> hhmm) list" where
  "azans_started w =
     map (\<lambda>e. (fst e, at_time (snd e))) (filter (\<lambda>e. job_func (snd e) = PlayAzan) (fired w))"

fun polls :: "env \<Rightarrow> nat \<Rightarrow> world \<Rightarrow> world" where
  "polls en 0 w = w"
| "polls en (Suc k) w = polls en k (sleep 30 (run_pending en w))"

definition midnight_isha_times :: prayer_times where
  "midnight_isha_times =
     [(''Fajr'', JStr ''03:10''), (''Dhuhr'', JStr ''13:05''), (''Asr'', JStr ''17:30''),
      (''Maghrib'', JStr ''22:40''), (''Isha'', JStr ''00:20'')]"

definition malformed_times :: prayer_times where
  "malformed_times =
     [(''Fajr'', JStr ''abc''), (''Dhuhr'', JStr ''13:05''), (''Asr'', JStr ''16:40''),
      (''Maghrib'', JStr ''19:58''), (''Isha'', JStr ''21:20'')]"

lemma clock_perform_mono: "clock w \<le> clock (perform es w)"
proof (induction es w rule: perform.induct)
  case (2 n es w)
  have "clock w \<le> clock (sleep n w)" by (simp add: sleep_def usec_per_second_def)
  with 2 show ?case by simp
qed (simp_all add: emit_def)

lemma clock_run_job_mono: "clock w \<le> clock (run_job en i w)"
proof -
  have "clock w \<le> clock (run_action en f (w\<lparr>fired := x\<rparr>))" for f x
    using clock_perform_mono[of "w\<lparr>fired := x\<rparr>"]
    by (cases f) (simp_all add: run_action_def emit_def)
  then show ?thesis by (simp add: run_job_def Let_def)
qed

lemma clock_fold_run_job_mono: "clock w \<le> clock (fold (run_job en) is w)"
proof (induction "is" arbitrary: w)
  case Nil
  show ?case by simp
next
  case (Cons i "is")
  have "clock w \<le> clock (run_job en i w)" by (rule clock_run_job_mono)
  also have "\<dots> \<le> clock (fold (run_job en) is (run_job en i w))" by (rule Cons.IH)
  finally show ?case by simp
qed

lemma clock_run_pending_mono: "clock w \<le> clock (run_pending en w)"
  by (simp add: run_pending_def Let_def clock_fold_run_job_mono)

section \<open>\<open>main_loop\<close>\<close>

text \<open>The inner loop: leave once the clock is past \<open>dt_isha\<close>, otherwise run what is
  pending and sleep 30 seconds.\<close>

function run_until :: "env \<Rightarrow> instant \<Rightarrow> world \<Rightarrow> world" where
  "run_until en dt_isha w =
     (if clock w > dt_isha then emit (Print LogIshaPassed) w
      else run_until en dt_isha (sleep 30 (run_pending en w)))"
  by pat_completeness auto
termination
proof (relation "measure (\<lambda>(en, dt_isha, w). nat (dt_isha + 1 - clock w))")
  show "wf (measure (\<lambda>(en, dt_isha, w). nat (dt_isha + 1 - clock w)))" by simp
next
  fix en :: env and dt_isha :: instant and w :: world
  assume "\<not> dt_isha < clock w"
  moreover have "clock w < clock (sleep 30 (run_pending en w))"
    using clock_run_pending_mono[of w en] by (simp add: sleep_def usec_per_second_def)
  ultimately show "((en, dt_isha, sleep 30 (run_pending en w)), (en, dt_isha, w))
      \<in> measure (\<lambda>(en, dt_isha, w). nat (dt_isha + 1 - clock w))"
    by simp
qed

declare run_until.simps [simp del]

text \<open>
  One pass through the body of the outer \<open>while True\<close>, on the controller's state: the
  date \<open>current_day\<close> and the world. \<open>Inl\<close> is an exception that leaves \<open>main_loop\<close>,
  and with it the process.
\<close>

definition main_loop_body :: "env \<Rightarrow> date \<times> world \<Rightarrow> error + (date \<times> world)" where
  "main_loop_body en st =
     (case st of (current_day, w) \<Rightarrow>
        err_bind (get_prayer_times_for_date en current_day (schedule_clear w))
          (\<lambda>(prayer_times, w1).
        case prayer_times of
          None \<Rightarrow> Inr (current_day, sleep 3600 (emit (Print LogRetryInHour) w1))
        | Some prayer_times \<Rightarrow>
            err_bind (schedule_daily_prayers current_day prayer_times w1) (\<lambda>w2.
            err_bind (schedule_test_time current_day (TEST_TIME en) w2) (\<lambda>w3.
            err_bind (case map_of prayer_times ''Isha'' of
                        None \<Rightarrow> Inl KeyError
                      | Some t_str \<Rightarrow> parse_time_of t_str) (\<lambda>(isha_hh, isha_mm).
            err_bind (datetime current_day isha_hh isha_mm) (\<lambda>dt_isha.
            Inr (current_day + 1, run_until en dt_isha w3)))))))"

text \<open>The first \<open>n\<close> passes of the outer loop, which has no exit of its own.\<close>

fun main_loop :: "env \<Rightarrow> nat \<Rightarrow> date \<times> world \<Rightarrow> error + (date \<times> world)" where
  "main_loop en 0 st = Inr st"
| "main_loop en (Suc n) st = err_bind (main_loop_body en st) (main_loop en n)"

text \<open>The state in which \<open>main_loop\<close> enters its loop: \<open>current_day\<close> is
  \<open>datetime.date.today()\<close>.\<close>

definition initial_state :: "world \<Rightarrow> date \<times> world" where
  "initial_state w = (date_of (clock w), w)"

lemma split_on_not_Nil: "split_on sep s \<noteq> []"
  by (induction s) (auto split: list.splits)

section \<open>Properties of \<open>parse_time\<close>\<close>

lemma hd_split_on: "hd (split_on sep s) = takeWhile (\<lambda>c. c \<noteq> sep) s"
  by (induction s) (auto split: list.splits simp: split_on_not_Nil)

lemma length_split_on: "length (split_on sep s) = Suc (count_list s sep)"
  by (induction s) (auto split: list.splits simp: split_on_not_Nil)

lemma split_on_no_sep: "sep \<notin> set s \<Longrightarrow> split_on sep s = [s]"
  by (induction s) auto

lemma split_on_append:
  "sep \<notin> set a \<Longrightarrow> split_on sep (a @ sep # b) = a # split_on sep b"
  by (induction a) auto

lemma split_on_decompose:
  "sep \<in> set s \<Longrightarrow>
   split_on sep s = takeWhile (\<lambda>c. c \<noteq> sep) s # split_on sep (tl (dropWhile (\<lambda>c. c \<noteq> sep) s))"
  by (induction s) auto

lemma count_list_0_iff': "count_list s c = 0 \<longleftrightarrow> c \<notin> set s"
  by (induction s) auto

lemma split_on_two:
  "(\<exists>a b. split_on sep s = [a, b]) \<longleftrightarrow> count_list s sep = 1"
proof -
  have "(\<exists>a b. split_on sep s = [a, b]) \<longleftrightarrow> length (split_on sep s) = 2"
    by (auto simp: length_Suc_conv numeral_2_eq_2)
  then show ?thesis by (simp add: length_split_on)
qed

lemma split_on_two_parts:
  assumes "count_list s sep = 1"
  shows "split_on sep s = [takeWhile (\<lambda>c. c \<noteq> sep) s, tl (dropWhile (\<lambda>c. c \<noteq> sep) s)]"
proof -
  have in_s: "sep \<in> set s" using assms count_list_0_iff'[of s sep] by auto
  let ?r = "tl (dropWhile (\<lambda>c. c \<noteq> sep) s)"
  have "length (split_on sep s) = 2" using assms by (simp add: length_split_on)
  then have "length (split_on sep ?r) = 1"
    using split_on_decompose[OF in_s] by simp
  then have "count_list ?r sep = 0" by (simp add: length_split_on)
  then have "sep \<notin> set ?r" by (simp add: count_list_0_iff')
  then show ?thesis using split_on_decompose[OF in_s] by (simp add: split_on_no_sep)
qed

lemma digits_acc_all_digits:
  "\<forall>c\<in>set cs. is_digit c \<Longrightarrow>
   digits_acc acc cs = Some (foldl (\<lambda>a c. a * 10 + digit_val c) acc cs)"
  by (induction acc cs rule: digits_acc.induct) auto

lemma digit_not_special:
  "is_digit c \<Longrightarrow> \<not> int_space c \<and> \<not> str_space c \<and> c \<noteq> CHR ''+'' \<and> c \<noteq> CHR ''-''
     \<and> c \<noteq> CHR '':'' \<and> c \<noteq> CHR ''(''"
  by (auto simp: is_digit_def int_space_def str_space_def)

lemma str_space_not_paren: "str_space c \<Longrightarrow> c \<noteq> CHR ''(''"
  by (auto simp: str_space_def)

lemma takeWhile_all: "sep \<notin> set a \<Longrightarrow> takeWhile (\<lambda>c. c \<noteq> sep) a = a"
  by (induction a) auto

lemma takeWhile_stop: "sep \<notin> set a \<Longrightarrow> takeWhile (\<lambda>c. c \<noteq> sep) (a @ sep # r) = a"
  by (induction a) auto

lemma strip_core:
  assumes "\<forall>c\<in>set a. P c" "\<forall>c\<in>set b. P c" "m \<noteq> []" "\<not> P (hd m)" "\<not> P (last m)"
  shows "rev (dropWhile P (rev (dropWhile P (a @ m @ b)))) = m"
proof -
  have 1: "dropWhile P (a @ m @ b) = m @ b"
    using assms by (cases m) (auto simp: dropWhile_append3 dropWhile_append)
  have "dropWhile P (rev b @ rev m) = rev m"
    using assms by (cases m rule: rev_cases) (auto simp: dropWhile_append)
  then show ?thesis using 1 by simp
qed

lemma py_int_digits:
  assumes "ds \<noteq> []" "\<forall>c\<in>set ds. is_digit c"
  shows "py_int ds = Some (decimal ds)"
proof -
  obtain c cs where ds: "ds = c # cs" using assms(1) by (cases ds) auto
  have hd: "\<not> int_space (hd ds)" using assms ds digit_not_special by auto
  have la: "\<not> int_space (last ds)" using assms digit_not_special last_in_set by blast
  have t: "rev (dropWhile int_space (rev (dropWhile int_space ds))) = ds"
    using strip_core[of "[]" int_space "[]" ds] assms(1) hd la by simp
  have c: "is_digit c" "\<forall>x\<in>set cs. is_digit x" using assms(2) ds by auto
  have "py_digits ds = Some (decimal ds)"
    using c by (simp add: py_digits_def ds decimal_def digits_acc_all_digits)
  moreover have "c \<noteq> CHR ''+''" "c \<noteq> CHR ''-''"
    using c(1) digit_not_special[of c] by simp_all
  then have "py_int (c # cs) = py_digits (c # cs)"
    using t unfolding ds py_int_def Let_def by simp
  ultimately show ?thesis by (simp add: ds)
qed

lemma parse_time_wellformed:
  assumes hs: "hs \<noteq> []" "length hs \<le> 2" "\<forall>c\<in>set hs. is_digit c"
    and ms: "length ms = 2" "\<forall>c\<in>set ms. is_digit c"
    and sp: "\<forall>c\<in>set lead. str_space c" "\<forall>c\<in>set sp. str_space c"
    and ann: "ann = sp \<or> ann = sp @ CHR ''('' # rest"
  shows "parse_time (lead @ hs @ '':'' @ ms @ ann) = Inr (decimal hs, decimal ms)"
proof -
  let ?m = "hs @ CHR '':'' # ms"
  let ?s = "lead @ ?m @ ann"
  have ms_ne: "ms \<noteq> []" using ms(1) by auto
  have "\<not> is_digit CHR ''(''" "\<not> str_space CHR ''(''"
    by (simp_all add: is_digit_def str_space_def)
  then have nop: "CHR ''('' \<notin> set (lead @ ?m @ sp)"
    using hs(3) ms(2) sp by auto
  have tw: "takeWhile (\<lambda>c. c \<noteq> CHR ''('') ?s = lead @ ?m @ sp"
  proof (cases "ann = sp")
    case True
    then show ?thesis using takeWhile_all[OF nop] by simp
  next
    case False
    then have a: "ann = sp @ CHR ''('' # rest" using ann by simp
    have "?s = (lead @ ?m @ sp) @ CHR ''('' # rest"
      by (simp add: a)
    then show ?thesis using takeWhile_stop[OF nop] by simp
  qed
  have "\<not> str_space (hd ?m)" using hs digit_not_special by (cases hs) auto
  moreover have "last ?m = last ms" using ms_ne by simp
  then have "\<not> str_space (last ?m)"
    using ms(2) ms_ne digit_not_special[of "last ms"] by simp
  ultimately have st: "strip (lead @ ?m @ sp) = ?m"
    unfolding strip_def using strip_core[of lead str_space sp ?m] sp by simp
  have "CHR '':'' \<notin> set hs" "CHR '':'' \<notin> set ms"
    using hs ms digit_not_special by auto
  then have spl: "split_on CHR '':'' ?m = [hs, ms]"
    using split_on_append[of "CHR '':''" hs ms] by (simp add: split_on_no_sep)
  have "parse_time ?s = Inr (decimal hs, decimal ms)"
    unfolding parse_time_def hd_split_on tw st spl Let_def
    by (simp add: py_int_digits hs ms ms_ne)
  then show ?thesis by simp
qed

lemma parse_time_fails_iff:
  "(parse_time s = Inl ValueError) = (\<not> two_int_parts (annotation_stripped s))"
proof (cases "count_list (annotation_stripped s) CHR '':'' = 1")
  case True
  show ?thesis
    using split_on_two_parts[OF True] True
    by (auto simp: parse_time_def hd_split_on two_int_parts_def annotation_stripped_def Let_def
        split: option.splits)
next
  case False
  then have "\<not> (\<exists>a b. split_on CHR '':'' (annotation_stripped s) = [a, b])"
    by (simp add: split_on_two)
  then have "parse_time s = Inl ValueError"
    by (auto simp: parse_time_def hd_split_on annotation_stripped_def Let_def
        split: list.splits option.splits)
  then show ?thesis using False by (simp add: two_int_parts_def)
qed

lemma parse_time_error: "parse_time s = Inl e \<Longrightarrow> e = ValueError"
  by (auto simp: parse_time_def Let_def split: list.splits option.splits)

text \<open>
  Claim C5. For every well-formed input, that is one or two digits, a colon and two
  digits, with optional whitespace around and an optional annotation that opens with a
  parenthesis, \<open>parse_time\<close> returns exactly the hour and minute written, whatever the
  annotation contains. And for every input, \<open>parse_time\<close> fails exactly when the
  annotation-stripped, whitespace-trimmed text does not consist of two integer literals
  around a single colon; the failure is always a \<open>ValueError\<close>.
\<close>

theorem parse_time_wellformed_or_fails:
  "(hs \<noteq> [] \<and> length hs \<le> 2 \<and> length ms = 2
      \<and> (\<forall>c\<in>set (hs @ ms). is_digit c) \<and> (\<forall>c\<in>set (lead @ sp). str_space c)
      \<and> (ann = sp \<or> ann = sp @ CHR ''('' # rest)
    \<longrightarrow> parse_time (lead @ hs @ '':'' @ ms @ ann) = Inr (decimal hs, decimal ms))
   \<and> ((\<exists>e. parse_time s = Inl e) = (\<not> two_int_parts (annotation_stripped s)))
   \<and> (\<forall>e. parse_time s = Inl e \<longrightarrow> e = ValueError)"
proof (intro conjI impI allI)
  assume a: "hs \<noteq> [] \<and> length hs \<le> 2 \<and> length ms = 2
      \<and> (\<forall>c\<in>set (hs @ ms). is_digit c) \<and> (\<forall>c\<in>set (lead @ sp). str_space c)
      \<and> (ann = sp \<or> ann = sp @ CHR ''('' # rest)"
  then have "\<forall>c\<in>set hs. is_digit c" "\<forall>c\<in>set ms. is_digit c"
    "\<forall>c\<in>set lead. str_space c" "\<forall>c\<in>set sp. str_space c"
    by auto
  then show "parse_time (lead @ hs @ '':'' @ ms @ ann) = Inr (decimal hs, decimal ms)"
    using a parse_time_wellformed[of hs ms lead sp ann rest] by blast
next
  show "(\<exists>e. parse_time s = Inl e) = (\<not> two_int_parts (annotation_stripped s))"
    using parse_time_fails_iff[of s] parse_time_error[of s] by auto
next
  fix e
  assume "parse_time s = Inl e"
  then show "e = ValueError" by (rule parse_time_error)
qed

theorem parse_time_wellformed_or_fails_witness:
  "parse_time ''20:30 (CEST)'' = Inr (20, 30)
   \<and> parse_time ''5:07'' = Inr (5, 7)
   \<and> parse_time ''20:30:99'' = Inl ValueError
   \<and> \<not> two_int_parts (annotation_stripped ''20:30:99'')
   \<and> parse_time ''abc'' = Inl ValueError
   \<and> \<not> two_int_parts (annotation_stripped ''abc'')"
proof -
  have sp: "str_space CHR '' ''" by (simp add: str_space_def)
  have dg: "is_digit CHR ''0''" "is_digit CHR ''2''" "is_digit CHR ''3''"
    "is_digit CHR ''5''" "is_digit CHR ''7''"
    by (simp_all add: is_digit_def)
  have 1: "parse_time ''20:30 (CEST)'' = Inr (20, 30)"
    using parse_time_wellformed_or_fails
      [of "''20''" "''30''" "[]" "'' ''" "'' (CEST)''" "''CEST)''"] sp dg
    by (simp add: decimal_def digit_val_def)
  have 2: "parse_time ''5:07'' = Inr (5, 7)"
    using parse_time_wellformed_or_fails [of "''5''" "''07''" "[]" "[]" "[]"] dg
    by (simp add: decimal_def digit_val_def)
  have 3: "\<not> two_int_parts (annotation_stripped ''20:30:99'')"
    by (simp add: two_int_parts_def annotation_stripped_def strip_def str_space_def)
  have 4: "\<not> two_int_parts (annotation_stripped ''abc'')"
    by (simp add: two_int_parts_def annotation_stripped_def strip_def str_space_def)
  have "parse_time ''20:30:99'' = Inl ValueError"
    using parse_time_wellformed_or_fails [where s = "''20:30:99''"] 3 by blast
  moreover have "parse_time ''abc'' = Inl ValueError"
    using parse_time_wellformed_or_fails [where s = "''abc''"] 4 by blast
  ultimately show ?thesis using 1 2 3 4 by simp
qed

text \<open>
  Claim C10. \<open>parse_time\<close> checks no range: whenever the annotation-stripped text has one
  colon with an integer literal on each side, the two integers are returned as they
  are, whatever their size or sign. An hour outside 0..23 or a minute outside 0..59 is
  refused only later, by the consumers of the pair: handed such a string,
  \<open>schedule_prayer\<close> and \<open>schedule_test_time\<close> both raise the exception of the
  \<open>datetime\<close> constructor, \<open>ValueError\<close> for numbers that fit a C integer and
  \<open>OverflowError\<close> beyond.
\<close>

theorem parse_time_no_range_check:
  assumes "count_list (annotation_stripped s) CHR '':'' = 1"
    and "py_int (takeWhile (\<lambda>c. c \<noteq> CHR '':'') (annotation_stripped s)) = Some a"
    and "py_int (tl (dropWhile (\<lambda>c. c \<noteq> CHR '':'') (annotation_stripped s))) = Some b"
  shows "parse_time s = Inr (a, b)
    \<and> (\<not> (0 \<le> a \<and> a \<le> 23 \<and> 0 \<le> b \<and> b \<le> 59) \<longrightarrow>
          schedule_prayer d (prayer, JStr s) w
            = Inl (if c_int a \<and> c_int b then ValueError else OverflowError)
          \<and> schedule_test_time d s w
            = Inl (if c_int a \<and> c_int b then ValueError else OverflowError))"
proof -
  have p: "parse_time s = Inr (a, b)"
    using split_on_two_parts[OF assms(1)] assms(2,3)
    by (simp add: parse_time_def hd_split_on annotation_stripped_def Let_def)
  have "parse_time [] = Inl ValueError" by code_simp
  then have ne: "s \<noteq> []" using p by auto
  have "datetime d a b = Inl (if c_int a \<and> c_int b then ValueError else OverflowError)"
    if "\<not> (0 \<le> a \<and> a \<le> 23 \<and> 0 \<le> b \<and> b \<le> 59)"
    using that by (simp add: datetime_def)
  then show ?thesis
    using p ne by (simp add: schedule_prayer_def schedule_test_time_def err_bind_def Let_def)
qed

theorem parse_time_no_range_check_witness:
  "parse_time ''99:99'' = Inr (99, 99)
   \<and> schedule_prayer 100 (''Fajr'', JStr ''99:99'') (world_at 0) = Inl ValueError
   \<and> schedule_test_time 100 ''99:99'' (world_at 0) = Inl ValueError
   \<and> parse_time ''-1:5'' = Inr (- 1, 5)
   \<and> parse_time ''5:2147483648'' = Inr (5, 2147483648)
   \<and> schedule_prayer 100 (''Fajr'', JStr ''5:2147483648'') (world_at 0) = Inl OverflowError"
proof -
  have b: "annotation_stripped ''99:99'' = ''99:99''" "annotation_stripped ''-1:5'' = ''-1:5''"
    "annotation_stripped ''5:2147483648'' = ''5:2147483648''"
    by (simp_all add: annotation_stripped_def strip_def str_space_def)
  have i: "py_int ''99'' = Some 99" "py_int ''-1'' = Some (- 1)" "py_int ''5'' = Some 5"
    "py_int ''2147483648'' = Some 2147483648"
    by (simp_all add: py_int_def int_space_def py_digits_def is_digit_def digit_val_def)
  have c: "c_int 99" "c_int 5" "\<not> c_int 2147483648" by (simp_all add: c_int_def)
  show ?thesis
    using parse_time_no_range_check [of "''99:99''" 99 99 100 "''Fajr''" "world_at 0"]
      parse_time_no_range_check [of "''-1:5''" "- 1" 5 100 "''Fajr''" "world_at 0"]
      parse_time_no_range_check [of "''5:2147483648''" 5 2147483648 100 "''Fajr''" "world_at 0"]
      b i c
    by simp
qed

section \<open>Properties of \<open>play_azan\<close>\<close>

text \<open>
  Claim C2. Whenever the target device is found and its volume level is read, the
  run of \<open>play_azan\<close> makes exactly two \<open>set_volume\<close> calls, the second with the
  level read at the start; that call comes after the 180 second wait and closes the
  run, whether or not the first \<open>set_volume\<close>, \<open>play_media\<close> or \<open>play\<close> failed. Both
  the volume step and the playback step are attempted in every such run, and a failure
  of either is printed.
\<close>

theorem play_azan_restores_snapshot:
  assumes "discovered dev = Some names" and "target \<in> set names" and "wait_ok dev"
    and "volume_level dev = Some v"
  shows "volume_calls (play_azan target dev) = [AZAN_VOLUME, v]
    \<and> (\<exists>before. play_azan target dev =
          before @ [Sleep 180, Call (SetVolume v) (restore_ok dev),
                    Print (if restore_ok dev then LogVolumeRestored v else LogRestoreFailed)])
    \<and> Call (SetVolume AZAN_VOLUME) (set_azan_ok dev) \<in> set (play_azan target dev)
    \<and> Call (PlayMedia AZAN_URL ''audio/mp3'') (play_media_ok dev) \<in> set (play_azan target dev)
    \<and> (\<not> set_azan_ok dev \<longrightarrow> Print LogSetVolumeFailed \<in> set (play_azan target dev))
    \<and> (\<not> (play_media_ok dev \<and> play_ok dev) \<longrightarrow> Print LogPlayError \<in> set (play_azan target dev))"
proof -
  have c: "connect_to_google_home target dev =
      ([Print LogSearching, Call GetChromecasts True, Print (LogFoundDevices (length names)),
        Print LogTargetFound, Call WaitReady True], Inr True)"
    using assms by (simp add: connect_to_google_home_def)
  show ?thesis
    unfolding play_azan_def c using assms(4)
    by (cases "set_azan_ok dev"; cases "play_media_ok dev"; cases "play_ok dev";
        cases "restore_ok dev") simp_all
qed

theorem play_azan_restores_snapshot_witness:
  "volume_calls (play_azan ''Parents Room speaker''
      \<lparr>discovered = Some [''TV'', ''Parents Room speaker''], wait_ok = True,
       volume_level = Some (4 / 10), set_azan_ok = False, play_media_ok = False,
       play_ok = True, restore_ok = True\<rparr>) = [1, 4 / 10]"
  using play_azan_restores_snapshot
    [of "\<lparr>discovered = Some [''TV'', ''Parents Room speaker''], wait_ok = True,
       volume_level = Some (4 / 10), set_azan_ok = False, play_media_ok = False,
       play_ok = True, restore_ok = True\<rparr>" "[''TV'', ''Parents Room speaker'']"
       "''Parents Room speaker''" "4 / 10"]
  by (simp add: AZAN_VOLUME_def)

section \<open>Properties of the scheduling functions\<close>

lemma emit_fields [simp]:
  "clock (emit e w) = clock w" "jobs (emit e w) = jobs w" "fired (emit e w) = fired w"
  "trace (emit e w) = trace w @ [e]"
  by (simp_all add: emit_def)

lemma sleep_fields [simp]:
  "clock (sleep n w) = clock w + int n * usec_per_second" "jobs (sleep n w) = jobs w"
  "fired (sleep n w) = fired w" "trace (sleep n w) = trace w @ [Sleep n]"
  by (simp_all add: sleep_def)

lemma every_day_at_do_fields [simp]:
  "clock (every_day_at_do t f w) = clock w"
  "fired (every_day_at_do t f w) = fired w"
  "trace (every_day_at_do t f w) = trace w"
  "jobs (every_day_at_do t f w) =
     jobs w @ [\<lparr>at_time = t, next_run = next_occurrence (clock w) t, job_func = f\<rparr>]"
  by (simp_all add: every_day_at_do_def)

lemma perform_jobs_fired [simp]:
  "jobs (perform es w) = jobs w" "fired (perform es w) = fired w"
  by (induction es w rule: perform.induct) simp_all

lemma perform_prints_clock:
  "\<forall>e\<in>set es. \<forall>n. e \<noteq> Sleep n \<Longrightarrow> clock (perform es w) = clock w"
  by (induction es w rule: perform.induct) simp_all

lemma schedule_prayer_jobs:
  assumes "prayer_instant d v = Inr p"
  shows "\<exists>w'. schedule_prayer d (name, v) w = Inr w' \<and> clock w' = clock w
           \<and> fired w' = fired w \<and> jobs w' = jobs w @ prayer_jobs (clock w) (name, p)"
proof -
  obtain hh mm where 1: "parse_time_of v = Inr (hh, mm)" and 2: "datetime d hh mm = Inr p"
    using assms by (auto simp: prayer_instant_def err_bind_def split: sum.splits)
  show ?thesis
    by (simp add: schedule_prayer_def 1 2 err_bind_def Let_def prayer_jobs_def)
qed

lemma schedule_prayers_jobs:
  assumes "list_all2 (\<lambda>nv np. fst np = fst nv \<and> prayer_instant d (snd nv) = Inr (snd np)) pt nps"
  shows "\<exists>w'. schedule_prayers d pt w = Inr w' \<and> clock w' = clock w \<and> fired w' = fired w
           \<and> jobs w' = jobs w @ concat (map (prayer_jobs (clock w)) nps)"
  using assms
proof (induction pt nps arbitrary: w rule: list_all2_induct)
  case Nil
  show ?case by simp
next
  case (Cons nv pt np nps)
  obtain w1 where 1: "schedule_prayer d nv w = Inr w1" "clock w1 = clock w"
    "fired w1 = fired w" "jobs w1 = jobs w @ prayer_jobs (clock w) np"
    using schedule_prayer_jobs[of d "snd nv" "snd np" "fst nv" w] Cons.hyps(1)
    by (cases nv; cases np) auto
  obtain w' where 2: "schedule_prayers d pt w1 = Inr w'" "clock w' = clock w1"
    "fired w' = fired w1" "jobs w' = jobs w1 @ concat (map (prayer_jobs (clock w1)) nps)"
    using Cons.IH[of w1] by blast
  show ?case using 1 2 by (simp add: err_bind_def)
qed

lemma schedule_daily_prayers_jobs:
  assumes "list_all2 (\<lambda>nv np. fst np = fst nv \<and> prayer_instant d (snd nv) = Inr (snd np)) pt nps"
  shows "\<exists>w'. schedule_daily_prayers d pt w = Inr w' \<and> clock w' = clock w \<and> fired w' = fired w
           \<and> jobs w' = jobs w @ concat (map (prayer_jobs (clock w)) nps)"
proof -
  let ?w = "perform (Print (LogScheduling d) # map (\<lambda>(p, t_str). Print (LogPrayerTime p)) pt) w"
  have "clock ?w = clock w" by (rule perform_prints_clock) auto
  then show ?thesis
    using schedule_prayers_jobs[OF assms, of ?w] by (simp add: schedule_daily_prayers_def)
qed

lemma hm_recompose:
  assumes "t mod usec_per_minute = 0"
  shows "at_hhmm d (strftime_HM t) = d * usec_per_day + t mod usec_per_day"
proof -
  define r where "r = t mod usec_per_day"
  define q where "q = r div 60000000"
  have "r mod 60000000 = 0"
    using assms unfolding r_def usec_per_minute_def usec_per_day_def
    by (simp add: mod_mod_cancel)
  then have r: "q * 60000000 = r" unfolding q_def by auto
  have h: "r div 3600000000 = q div 60"
    unfolding q_def by (simp add: div_mult2_eq[symmetric])
  have "q div 60 * 3600000000 + (q mod 60) * 60000000 = q * 60000000"
    using mult_div_mod_eq[of 60 q] by linarith
  then have "r div 3600000000 * 3600000000 + (r div 60000000 mod 60) * 60000000 = r"
    unfolding h q_def[symmetric] r by this
  then show ?thesis
    unfolding at_hhmm_def strftime_HM_def usec_per_hour_def usec_per_minute_def r_def
    by simp
qed

lemma next_occurrence_exact:
  assumes "t mod usec_per_minute = 0" and "now < t" and "t \<le> now + usec_per_day"
  shows "next_occurrence now (strftime_HM t) = t"
proof -
  have t: "t = (t div usec_per_day) * usec_per_day + t mod usec_per_day" by simp
  have d: "now div usec_per_day \<le> t div usec_per_day"
    using assms(2) by (simp add: zdiv_mono1 usec_per_day_def)
  have "t div usec_per_day \<le> (now + usec_per_day) div usec_per_day"
    using assms(3) by (simp add: zdiv_mono1 usec_per_day_def)
  then have d': "t div usec_per_day \<le> now div usec_per_day + 1"
    by (simp add: usec_per_day_def)
  consider "t div usec_per_day = now div usec_per_day"
    | "t div usec_per_day = now div usec_per_day + 1"
    using d d' by linarith
  then show ?thesis
  proof cases
    case 1
    then have "at_hhmm (date_of now) (strftime_HM t) = t"
      using hm_recompose[OF assms(1), of "date_of now"] t by (simp add: date_of_def)
    then show ?thesis using assms(2) by (simp add: next_occurrence_def)
  next
    case 2
    then have "at_hhmm (date_of now) (strftime_HM t) = t - usec_per_day"
      using hm_recompose[OF assms(1), of "date_of now"] t
      by (simp add: date_of_def algebra_simps)
    then show ?thesis using assms(3) by (simp add: next_occurrence_def)
  qed
qed

lemma prayer_instant_whole_minute:
  assumes "prayer_instant d v = Inr p"
  shows "p mod usec_per_minute = 0"
proof -
  obtain hh mm where "p = at_hhmm d (hh, mm)"
    using assms
    by (auto simp: prayer_instant_def err_bind_def datetime_def split: sum.splits if_splits)
  then show ?thesis
    by (simp add: at_hhmm_def usec_per_day_def usec_per_hour_def usec_per_minute_def)
qed

lemma prayer_jobs_expected:
  assumes "p mod usec_per_minute = 0" and "p - usec_per_minute \<le> now + usec_per_day"
  shows "scheduled (prayer_jobs now (name, p)) = expected_events now (name, p)"
proof -
  have 1: "(p - usec_per_minute) mod usec_per_minute = 0"
    "(p - 10 * usec_per_minute) mod usec_per_minute = 0"
    using assms(1) by (simp_all add: usec_per_minute_def mod_diff_left_eq[symmetric])
  have 2: "p - 10 * usec_per_minute \<le> now + usec_per_day"
    using assms(2) by (simp add: usec_per_minute_def)
  show ?thesis
    using next_occurrence_exact[OF 1(1) _ assms(2)] next_occurrence_exact[OF 1(2) _ 2]
    by (simp add: scheduled_def prayer_jobs_def expected_events_def)
qed

lemma expected_is_spec: "expected_events now np = spec_events now np"
  by (cases np) (simp add: expected_events_def spec_events_def usec_per_minute_def)

lemma alert_runs_append: "alert_runs (a @ b) = alert_runs a @ alert_runs b"
  by (simp add: alert_runs_def)

lemma reminder_runs_append: "reminder_runs (a @ b) = reminder_runs a @ reminder_runs b"
  by (simp add: reminder_runs_def)

lemma alert_runs_prayer_jobs:
  assumes "p mod usec_per_minute = 0" and "p - usec_per_minute \<le> now + usec_per_day"
    and "now < p - usec_per_minute"
  shows "alert_runs (prayer_jobs now (name, p)) = [p - usec_per_minute]"
proof -
  have 1: "(p - usec_per_minute) mod usec_per_minute = 0"
    using assms(1) by (simp add: usec_per_minute_def mod_diff_left_eq[symmetric])
  show ?thesis
    using next_occurrence_exact[OF 1 assms(3) assms(2)] assms(3)
    by (simp add: alert_runs_def prayer_jobs_def)
qed

lemma reminder_runs_prayer_jobs:
  assumes "p mod usec_per_minute = 0" and "p - usec_per_minute \<le> now + usec_per_day"
    and "now < p - usec_per_minute"
  shows "reminder_runs (prayer_jobs now (name, p)) =
    (if now < p - 10 * usec_per_minute then [p - 10 * usec_per_minute] else [])"
proof -
  have 1: "(p - 10 * usec_per_minute) mod usec_per_minute = 0"
    using assms(1) by (simp add: usec_per_minute_def mod_diff_left_eq[symmetric])
  have 2: "p - 10 * usec_per_minute \<le> now + usec_per_day"
    using assms(2) by (simp add: usec_per_minute_def)
  show ?thesis
    using next_occurrence_exact[OF 1 _ 2] assms(3)
    by (simp add: reminder_runs_def prayer_jobs_def)
qed

lemma concat_prayer_jobs:
  assumes "\<forall>np\<in>set nps. snd np mod usec_per_minute = 0
              \<and> snd np - usec_per_minute \<le> now + usec_per_day"
  shows "scheduled (concat (map (prayer_jobs now) nps)) = concat (map (spec_events now) nps)"
  using assms
proof (induction nps)
  case Nil
  show ?case by (simp add: scheduled_def)
next
  case (Cons np nps)
  have "scheduled (prayer_jobs now np) = spec_events now np"
    using Cons.prems prayer_jobs_expected[of "snd np" now "fst np"]
    by (simp add: expected_is_spec)
  moreover have "scheduled (a @ b) = scheduled a @ scheduled b" for a b
    by (simp add: scheduled_def)
  ultimately show ?case using Cons by simp
qed

lemma concat_prayer_jobs_alerts:
  assumes "\<forall>np\<in>set nps. snd np mod usec_per_minute = 0
              \<and> snd np - usec_per_minute \<le> now + usec_per_day
              \<and> now < snd np - usec_per_minute"
  shows "alert_runs (concat (map (prayer_jobs now) nps)) = map (\<lambda>np. snd np - usec_per_minute) nps
    \<and> reminder_runs (concat (map (prayer_jobs now) nps)) =
        map (\<lambda>np. snd np - 10 * usec_per_minute)
          (filter (\<lambda>np. now < snd np - 10 * usec_per_minute) nps)"
  using assms
proof (induction nps)
  case Nil
  show ?case by (simp add: alert_runs_def reminder_runs_def)
next
  case (Cons np nps)
  have "alert_runs (prayer_jobs now np) = [snd np - usec_per_minute]"
    using Cons.prems alert_runs_prayer_jobs[of "snd np" now "fst np"] by simp
  moreover have "reminder_runs (prayer_jobs now np) =
    (if now < snd np - 10 * usec_per_minute then [snd np - 10 * usec_per_minute] else [])"
    using Cons.prems reminder_runs_prayer_jobs[of "snd np" now "fst np"] by simp
  ultimately show ?case using Cons by (simp add: alert_runs_append reminder_runs_append)
qed

lemma schedule_prayers_Inr:
  "schedule_prayers d pt w = Inr w' \<Longrightarrow>
   \<exists>nps. list_all2 (\<lambda>nv np. fst np = fst nv \<and> prayer_instant d (snd nv) = Inr (snd np)) pt nps"
proof (induction pt arbitrary: w)
  case Nil
  show ?case by simp
next
  case (Cons nv pt)
  obtain w1 where 1: "schedule_prayer d nv w = Inr w1" "schedule_prayers d pt w1 = Inr w'"
    using Cons.prems by (auto simp: err_bind_def split: sum.splits)
  obtain p where "prayer_instant d (snd nv) = Inr p"
    using 1(1)
    by (cases nv) (auto simp: schedule_prayer_def prayer_instant_def err_bind_def split: sum.splits)
  moreover obtain nps where
    "list_all2 (\<lambda>nv np. fst np = fst nv \<and> prayer_instant d (snd nv) = Inr (snd np)) pt nps"
    using Cons.IH[OF 1(2)] by blast
  ultimately have
    "list_all2 (\<lambda>nv np. fst np = fst nv \<and> prayer_instant d (snd nv) = Inr (snd np))
       (nv # pt) ((fst nv, p) # nps)"
    by simp
  then show ?case by blast
qed

text \<open>
  Claim C1, as amended. Let the five time strings parse to the prayer instants, none
  of whose alert instants (prayer instant minus one minute) is more than 24 hours
  ahead of the build time. Then \<open>schedule_daily_prayers\<close> adds exactly the events of
  the specification's \<open>buildDailyEvents\<close>. In particular, when all five alert
  instants are still ahead, it adds exactly five \<open>play_azan\<close> jobs, one per prayer and
  each first run at exactly the prayer instant minus one minute, and one reminder at
  the prayer instant minus ten minutes for each prayer whose reminder instant is still
  ahead; a prayer whose alert instant has passed adds nothing.
\<close>

theorem schedule_daily_prayers_events:
  assumes "list_all2 (\<lambda>nv np. fst np = fst nv \<and> prayer_instant d (snd nv) = Inr (snd np)) pt nps"
    and "map fst pt = [''Fajr'', ''Dhuhr'', ''Asr'', ''Maghrib'', ''Isha'']"
    and "\<forall>np\<in>set nps. snd np - usec_per_minute \<le> clock w + usec_per_day"
  shows "\<exists>w' new. schedule_daily_prayers d pt w = Inr w' \<and> jobs w' = jobs w @ new
    \<and> scheduled new = concat (map (spec_events (clock w)) nps)
    \<and> ((\<forall>np\<in>set nps. clock w < snd np - usec_per_minute) \<longrightarrow>
          alert_runs new = map (\<lambda>np. snd np - usec_per_minute) nps
          \<and> length (alert_runs new) = 5
          \<and> reminder_runs new =
              map (\<lambda>np. snd np - 10 * usec_per_minute)
                (filter (\<lambda>np. clock w < snd np - 10 * usec_per_minute) nps))
    \<and> ((\<forall>np\<in>set nps. snd np - usec_per_minute \<le> clock w) \<longrightarrow> new = [])"
proof -
  let ?new = "concat (map (prayer_jobs (clock w)) nps)"
  obtain w' where w': "schedule_daily_prayers d pt w = Inr w'" "jobs w' = jobs w @ ?new"
    using schedule_daily_prayers_jobs[OF assms(1), of w] by blast
  have "length (map fst pt) = 5" unfolding assms(2) by simp
  then have len: "length nps = 5"
    using list_all2_lengthD[OF assms(1)] by simp
  have whole: "\<forall>np\<in>set nps. snd np mod usec_per_minute = 0"
  proof
    fix np assume "np \<in> set nps"
    then obtain nv :: "string \<times> json" where "prayer_instant d (snd nv) = Inr (snd np)"
      using assms(1) by (auto simp: list_all2_conv_all_nth in_set_conv_nth)
    then show "snd np mod usec_per_minute = 0" by (rule prayer_instant_whole_minute)
  qed
  have 1: "scheduled ?new = concat (map (spec_events (clock w)) nps)"
    using concat_prayer_jobs[of nps "clock w"] whole assms(3) by simp
  have 2: "alert_runs ?new = map (\<lambda>np. snd np - usec_per_minute) nps
      \<and> length (alert_runs ?new) = 5
      \<and> reminder_runs ?new = map (\<lambda>np. snd np - 10 * usec_per_minute)
                (filter (\<lambda>np. clock w < snd np - 10 * usec_per_minute) nps)"
    if "\<forall>np\<in>set nps. clock w < snd np - usec_per_minute"
    using concat_prayer_jobs_alerts[of nps "clock w"] whole assms(3) that len by simp
  have 3: "?new = []" if "\<forall>np\<in>set nps. snd np - usec_per_minute \<le> clock w"
    using that by (auto simp: prayer_jobs_def split: prod.splits)
  show ?thesis using w' 1 2 3 by blast
qed

theorem schedule_daily_prayers_events_witness:
  "\<exists>w'. schedule_daily_prayers 100 example_times (world_at (at_hhmm 100 (4, 0))) = Inr w'
     \<and> alert_runs (jobs w') =
         [at_hhmm 100 (5, 11), at_hhmm 100 (13, 4), at_hhmm 100 (16, 39),
          at_hhmm 100 (19, 57), at_hhmm 100 (21, 19)]
     \<and> reminder_runs (jobs w') =
         [at_hhmm 100 (5, 2), at_hhmm 100 (12, 55), at_hhmm 100 (16, 30),
          at_hhmm 100 (19, 48), at_hhmm 100 (21, 10)]"
proof -
  let ?nps = "[(''Fajr'', at_hhmm 100 (5, 12)), (''Dhuhr'', at_hhmm 100 (13, 5)),
    (''Asr'', at_hhmm 100 (16, 40)), (''Maghrib'', at_hhmm 100 (19, 58)),
    (''Isha'', at_hhmm 100 (21, 20))]"
  have p: "prayer_instant 100 (JStr ''05:12'') = Inr (at_hhmm 100 (5, 12))"
    "prayer_instant 100 (JStr ''13:05'') = Inr (at_hhmm 100 (13, 5))"
    "prayer_instant 100 (JStr ''16:40'') = Inr (at_hhmm 100 (16, 40))"
    "prayer_instant 100 (JStr ''19:58'') = Inr (at_hhmm 100 (19, 58))"
    "prayer_instant 100 (JStr ''21:20'') = Inr (at_hhmm 100 (21, 20))"
    by code_simp+
  have 1: "list_all2 (\<lambda>nv np. fst np = fst nv \<and> prayer_instant 100 (snd nv) = Inr (snd np))
      example_times ?nps"
    using p by (simp add: example_times_def)
  have 2: "map fst example_times = [''Fajr'', ''Dhuhr'', ''Asr'', ''Maghrib'', ''Isha'']"
    by (simp add: example_times_def)
  have 3: "\<forall>np\<in>set ?nps. snd np - usec_per_minute \<le> clock (world_at (at_hhmm 100 (4, 0))) + usec_per_day"
    by (simp add: world_at_def at_hhmm_def usec_per_day_def usec_per_hour_def usec_per_minute_def)
  have 4: "\<forall>np\<in>set ?nps. clock (world_at (at_hhmm 100 (4, 0))) < snd np - usec_per_minute"
    by (simp add: world_at_def at_hhmm_def usec_per_day_def usec_per_hour_def usec_per_minute_def)
  have 5: "jobs (world_at (at_hhmm 100 (4, 0))) = []" by (simp add: world_at_def)
  have 6: "clock (world_at (at_hhmm 100 (4, 0))) < at_hhmm 100 (5, 2)"
    "clock (world_at (at_hhmm 100 (4, 0))) < at_hhmm 100 (12, 55)"
    "clock (world_at (at_hhmm 100 (4, 0))) < at_hhmm 100 (16, 30)"
    "clock (world_at (at_hhmm 100 (4, 0))) < at_hhmm 100 (19, 48)"
    "clock (world_at (at_hhmm 100 (4, 0))) < at_hhmm 100 (21, 10)"
    by (simp_all add: world_at_def at_hhmm_def usec_per_day_def usec_per_hour_def
        usec_per_minute_def)
  have 7: "at_hhmm 100 (5, 12) - usec_per_minute = at_hhmm 100 (5, 11)"
    "at_hhmm 100 (13, 5) - usec_per_minute = at_hhmm 100 (13, 4)"
    "at_hhmm 100 (16, 40) - usec_per_minute = at_hhmm 100 (16, 39)"
    "at_hhmm 100 (19, 58) - usec_per_minute = at_hhmm 100 (19, 57)"
    "at_hhmm 100 (21, 20) - usec_per_minute = at_hhmm 100 (21, 19)"
    "at_hhmm 100 (5, 12) - 10 * usec_per_minute = at_hhmm 100 (5, 2)"
    "at_hhmm 100 (13, 5) - 10 * usec_per_minute = at_hhmm 100 (12, 55)"
    "at_hhmm 100 (16, 40) - 10 * usec_per_minute = at_hhmm 100 (16, 30)"
    "at_hhmm 100 (19, 58) - 10 * usec_per_minute = at_hhmm 100 (19, 48)"
    "at_hhmm 100 (21, 20) - 10 * usec_per_minute = at_hhmm 100 (21, 10)"
    by (simp_all add: at_hhmm_def usec_per_day_def usec_per_hour_def usec_per_minute_def)
  obtain w' new where r: "schedule_daily_prayers 100 example_times (world_at (at_hhmm 100 (4, 0))) = Inr w'"
    "jobs w' = jobs (world_at (at_hhmm 100 (4, 0))) @ new"
    "alert_runs new = map (\<lambda>np. snd np - usec_per_minute) ?nps"
    "reminder_runs new = map (\<lambda>np. snd np - 10 * usec_per_minute)
       (filter (\<lambda>np. clock (world_at (at_hhmm 100 (4, 0))) < snd np - 10 * usec_per_minute) ?nps)"
    using schedule_daily_prayers_events[OF 1 2 3] 4 by blast
  show ?thesis
    using r 5 by (simp add: 7 6)
qed

text \<open>
  The claim as first worded fails twice. At 05:11:30 all five prayer instants of the
  example are ahead, yet Fajr at 05:12 gets no alert, because its alert instant 05:11
  has passed. And in the evening before the scheduled date, an alert whose time of day
  is still ahead of the clock has its first run on the evening itself, a day early.
\<close>

theorem schedule_daily_prayers_counterexample:
  "prayer_instant 100 (JStr ''05:12'') = Inr (at_hhmm 100 (5, 12))
   \<and> clock (world_at (at_hhmm 100 (5, 11) + 30 * usec_per_second)) < at_hhmm 100 (5, 12)
   \<and> map_sum id (alert_runs \<circ> jobs)
        (schedule_daily_prayers 100 example_times
           (world_at (at_hhmm 100 (5, 11) + 30 * usec_per_second)))
      = Inr [at_hhmm 100 (13, 4), at_hhmm 100 (16, 39), at_hhmm 100 (19, 57),
             at_hhmm 100 (21, 19)]
   \<and> map_sum id (alert_runs \<circ> jobs)
        (schedule_daily_prayers 101 late_isha_times
           (world_at (at_hhmm 100 (21, 20) + 10 * usec_per_second)))
      = Inr [at_hhmm 101 (5, 11), at_hhmm 101 (13, 4), at_hhmm 101 (16, 39),
             at_hhmm 101 (19, 57), at_hhmm 100 (21, 22)]"
  by code_simp

text \<open>
  Claim C7, as amended. A second call of \<open>schedule_daily_prayers\<close> with the same date,
  the same times and the same clock succeeds and computes the same jobs as the first,
  and appends them to the scheduler again: the job list after two calls is the list
  after one call followed by the same new jobs once more, so every event is pending
  twice. The pending jobs after the second call are those of a single call only when
  the scheduler is cleared before the call, as \<open>main_loop\<close> does.
\<close>

theorem schedule_daily_prayers_twice:
  assumes "schedule_daily_prayers d pt w = Inr w1"
  shows "\<exists>w2 w3 new. clock w1 = clock w \<and> jobs w1 = jobs w @ new
    \<and> schedule_daily_prayers d pt w1 = Inr w2 \<and> jobs w2 = jobs w1 @ new
    \<and> schedule_daily_prayers d pt (schedule_clear w1) = Inr w3 \<and> jobs w3 = new"
proof -
  obtain nps where
    n: "list_all2 (\<lambda>nv np. fst np = fst nv \<and> prayer_instant d (snd nv) = Inr (snd np)) pt nps"
    using assms schedule_prayers_Inr unfolding schedule_daily_prayers_def by blast
  have 1: "clock w1 = clock w" "jobs w1 = jobs w @ concat (map (prayer_jobs (clock w)) nps)"
    using schedule_daily_prayers_jobs[OF n, of w] assms by auto
  obtain w2 where 2: "schedule_daily_prayers d pt w1 = Inr w2"
    "jobs w2 = jobs w1 @ concat (map (prayer_jobs (clock w1)) nps)"
    using schedule_daily_prayers_jobs[OF n, of w1] by blast
  have c: "clock (schedule_clear w1) = clock w1" "jobs (schedule_clear w1) = []"
    by (simp_all add: schedule_clear_def)
  obtain w3 where 3: "schedule_daily_prayers d pt (schedule_clear w1) = Inr w3"
    "jobs w3 = jobs (schedule_clear w1)
       @ concat (map (prayer_jobs (clock (schedule_clear w1))) nps)"
    using schedule_daily_prayers_jobs[OF n, of "schedule_clear w1"] by blast
  show ?thesis using 1 2 3 c by simp
qed

theorem schedule_daily_prayers_twice_witness:
  "\<exists>w1 w2 w3. schedule_daily_prayers 100 example_times (world_at (at_hhmm 100 (4, 0))) = Inr w1
     \<and> schedule_daily_prayers 100 example_times w1 = Inr w2
     \<and> schedule_daily_prayers 100 example_times (schedule_clear w1) = Inr w3
     \<and> length (jobs w1) = 10 \<and> jobs w2 = jobs w1 @ jobs w1 \<and> jobs w3 = jobs w1"
proof -
  have "map_sum id (length \<circ> jobs)
      (schedule_daily_prayers 100 example_times (world_at (at_hhmm 100 (4, 0)))) = Inr 10"
    by code_simp
  then obtain w1 where 1:
    "schedule_daily_prayers 100 example_times (world_at (at_hhmm 100 (4, 0))) = Inr w1"
    "length (jobs w1) = 10"
    by (cases "schedule_daily_prayers 100 example_times (world_at (at_hhmm 100 (4, 0)))") auto
  obtain w2 w3 new where 2: "jobs w1 = jobs (world_at (at_hhmm 100 (4, 0))) @ new"
    "schedule_daily_prayers 100 example_times w1 = Inr w2" "jobs w2 = jobs w1 @ new"
    "schedule_daily_prayers 100 example_times (schedule_clear w1) = Inr w3" "jobs w3 = new"
    using schedule_daily_prayers_twice[OF 1(1)] by blast
  have "new = jobs w1" using 2(1) by (simp add: world_at_def)
  then show ?thesis using 1 2 by blast
qed

text \<open>
  The claim as first worded fails: the scheduler keeps what it holds, so after two
  calls it holds twenty jobs where one call leaves ten, and at 05:11 its
  \<open>run_pending\<close> plays the Fajr azan twice, the second once the first has ended.
\<close>

theorem schedule_daily_prayers_twice_counterexample:
  "map_sum id (length \<circ> jobs)
     (schedule_daily_prayers 100 example_times (world_at (at_hhmm 100 (4, 0)))) = Inr 10
   \<and> map_sum id (length \<circ> jobs)
       (err_bind (schedule_daily_prayers 100 example_times (world_at (at_hhmm 100 (4, 0))))
          (schedule_daily_prayers 100 example_times)) = Inr 20
   \<and> map_sum id
       (azans_started \<circ> run_pending (example_env (every_day example_times) []) \<circ> sleep 4260)
       (schedule_daily_prayers 100 example_times (world_at (at_hhmm 100 (4, 0))))
      = Inr [(at_hhmm 100 (5, 11), (5, 11))]
   \<and> map_sum id
       (azans_started \<circ> run_pending (example_env (every_day example_times) []) \<circ> sleep 4260)
       (err_bind (schedule_daily_prayers 100 example_times (world_at (at_hhmm 100 (4, 0))))
          (schedule_daily_prayers 100 example_times))
      = Inr [(at_hhmm 100 (5, 11), (5, 11)),
             (at_hhmm 100 (5, 11) + 182 * usec_per_second, (5, 11))]"
  by code_simp

lemma strftime_at_hhmm:
  assumes "0 \<le> hh" "hh \<le> 23" "0 \<le> mm" "mm \<le> 59"
  shows "strftime_HM (at_hhmm d (hh, mm)) = (hh, mm)"
proof -
  define r where "r = hh * 3600000000 + mm * 60000000"
  have r: "0 \<le> r" "r < 86400000000" using assms by (simp_all add: r_def)
  have "(d * 86400000000 + r) mod 86400000000 = r"
    using r by simp
  then have m: "at_hhmm d (hh, mm) mod usec_per_day = r"
    by (simp add: at_hhmm_def usec_per_day_def usec_per_hour_def usec_per_minute_def r_def
        add.assoc)
  have 1: "r div 3600000000 = hh"
  proof -
    have "r = hh * 3600000000 + mm * 60000000" by (simp add: r_def)
    moreover have "0 \<le> mm * 60000000" "mm * 60000000 < 3600000000" using assms by simp_all
    ultimately show ?thesis by simp
  qed
  have "r = (hh * 60 + mm) * 60000000" by (simp add: r_def algebra_simps)
  then have "r div 60000000 = hh * 60 + mm" by simp
  then have 2: "r div 60000000 mod 60 = mm" using assms by simp
  show ?thesis
    unfolding strftime_HM_def m using 1 2
    by (simp add: usec_per_hour_def usec_per_minute_def)
qed

lemma at_hhmm_whole_minute: "at_hhmm d t mod usec_per_minute = 0"
  by (simp add: at_hhmm_def usec_per_day_def usec_per_hour_def usec_per_minute_def)

text \<open>
  Claim C8, as amended. A test time string that parses to an instant still ahead of
  the build time adds exactly one \<open>play_azan\<close> job, registered at exactly the hour and
  minute of the string (no shift by a minute); its first run is the next occurrence of
  that time of day, which is the test instant itself whenever the instant is at most
  24 hours ahead. An empty string, a string that does not parse, or a test instant
  that has passed adds no job.
\<close>

theorem schedule_test_time_event:
  "(parse_time s = Inr (hh, mm) \<and> datetime d hh mm = Inr dt \<and> clock w < dt \<longrightarrow>
      (\<exists>w'. schedule_test_time d s w = Inr w'
         \<and> jobs w' = jobs w @ [\<lparr>at_time = (hh, mm), next_run = next_occurrence (clock w) (hh, mm),
                                job_func = PlayAzan\<rparr>]
         \<and> (dt \<le> clock w + usec_per_day \<longrightarrow> next_occurrence (clock w) (hh, mm) = dt)))
   \<and> (s = [] \<or> (\<exists>e. parse_time s = Inl e)
        \<or> (parse_time s = Inr (hh, mm) \<and> datetime d hh mm = Inr dt \<and> dt \<le> clock w) \<longrightarrow>
      (\<exists>w'. schedule_test_time d s w = Inr w' \<and> jobs w' = jobs w))"
proof (intro conjI impI)
  assume a: "parse_time s = Inr (hh, mm) \<and> datetime d hh mm = Inr dt \<and> clock w < dt"
  have "parse_time [] = Inl ValueError" by code_simp
  then have ne: "s \<noteq> []" using a by auto
  have rng: "0 \<le> hh" "hh \<le> 23" "0 \<le> mm" "mm \<le> 59" and dt: "dt = at_hhmm d (hh, mm)"
    using a by (auto simp: datetime_def split: if_splits)
  have hm: "strftime_HM dt = (hh, mm)" unfolding dt using rng by (rule strftime_at_hhmm)
  have "next_occurrence (clock w) (hh, mm) = dt" if "dt \<le> clock w + usec_per_day"
    using next_occurrence_exact[of dt "clock w"] that a at_hhmm_whole_minute[of d "(hh, mm)"] hm dt
    by simp
  then show "\<exists>w'. schedule_test_time d s w = Inr w'
         \<and> jobs w' = jobs w @ [\<lparr>at_time = (hh, mm), next_run = next_occurrence (clock w) (hh, mm),
                                job_func = PlayAzan\<rparr>]
         \<and> (dt \<le> clock w + usec_per_day \<longrightarrow> next_occurrence (clock w) (hh, mm) = dt)"
    using a ne hm by (simp add: schedule_test_time_def err_bind_def Let_def)
next
  assume a: "s = [] \<or> (\<exists>e. parse_time s = Inl e)
        \<or> (parse_time s = Inr (hh, mm) \<and> datetime d hh mm = Inr dt \<and> dt \<le> clock w)"
  then show "\<exists>w'. schedule_test_time d s w = Inr w' \<and> jobs w' = jobs w"
    by (auto simp: schedule_test_time_def err_bind_def Let_def)
qed

theorem schedule_test_time_event_witness:
  "(\<exists>w'. schedule_test_time 100 ''22:00'' (world_at (at_hhmm 100 (4, 0))) = Inr w'
        \<and> alert_runs (jobs w') = [at_hhmm 100 (22, 0)])
   \<and> (\<exists>w'. schedule_test_time 100 ''22:00'' (world_at (at_hhmm 100 (23, 0))) = Inr w'
        \<and> jobs w' = [])
   \<and> (\<exists>w'. schedule_test_time 100 ''abc'' (world_at (at_hhmm 100 (4, 0))) = Inr w'
        \<and> jobs w' = [])
   \<and> (\<exists>w'. schedule_test_time 100 [] (world_at (at_hhmm 100 (4, 0))) = Inr w' \<and> jobs w' = [])"
proof -
  have p: "parse_time ''22:00'' = Inr (22, 0)" "parse_time ''abc'' = Inl ValueError"
    "datetime 100 22 0 = Inr (at_hhmm 100 (22, 0))"
    by code_simp+
  have c: "clock (world_at (at_hhmm 100 (4, 0))) < at_hhmm 100 (22, 0)"
    "at_hhmm 100 (22, 0) \<le> clock (world_at (at_hhmm 100 (4, 0))) + usec_per_day"
    "at_hhmm 100 (22, 0) \<le> clock (world_at (at_hhmm 100 (23, 0)))"
    by (simp_all add: world_at_def at_hhmm_def usec_per_day_def usec_per_hour_def
        usec_per_minute_def)
  have j: "jobs (world_at t) = []" for t by (simp add: world_at_def)
  have 1: "\<exists>w'. schedule_test_time 100 ''22:00'' (world_at (at_hhmm 100 (4, 0))) = Inr w'
        \<and> alert_runs (jobs w') = [at_hhmm 100 (22, 0)]"
    using schedule_test_time_event
      [of "''22:00''" 22 0 100 "at_hhmm 100 (22, 0)" "world_at (at_hhmm 100 (4, 0))"] p c
    by (auto simp: j alert_runs_def)
  have 2: "\<exists>w'. schedule_test_time 100 ''22:00'' (world_at (at_hhmm 100 (23, 0))) = Inr w'
        \<and> jobs w' = []"
    using schedule_test_time_event
      [of "''22:00''" 22 0 100 "at_hhmm 100 (22, 0)" "world_at (at_hhmm 100 (23, 0))"] p c
    by (auto simp: j)
  have 3: "\<exists>w'. schedule_test_time 100 ''abc'' (world_at (at_hhmm 100 (4, 0))) = Inr w'
        \<and> jobs w' = []"
    using schedule_test_time_event
      [of "''abc''" 0 0 100 0 "world_at (at_hhmm 100 (4, 0))"] p
    by (auto simp: j)
  have 4: "\<exists>w'. schedule_test_time 100 [] (world_at (at_hhmm 100 (4, 0))) = Inr w' \<and> jobs w' = []"
    using schedule_test_time_event [of "[]" 0 0 100 0 "world_at (at_hhmm 100 (4, 0))"]
    by (auto simp: j)
  show ?thesis using 1 2 3 4 by blast
qed

text \<open>
  The claim as first worded fails when the date being scheduled is the day after the
  build time, as it is at every rollover: at 21:21 of day 100 the test time 22:00 of
  day 101 is ahead, and the job registered for it first runs at 22:00 of day 100.
\<close>

theorem schedule_test_time_counterexample:
  "parse_time ''22:00'' = Inr (22, 0)
   \<and> datetime 101 22 0 = Inr (at_hhmm 101 (22, 0))
   \<and> clock (world_at (at_hhmm 100 (21, 21))) < at_hhmm 101 (22, 0)
   \<and> map_sum id (alert_runs \<circ> jobs)
        (schedule_test_time 101 ''22:00'' (world_at (at_hhmm 100 (21, 21))))
      = Inr [at_hhmm 100 (22, 0)]
   \<and> at_hhmm 100 (22, 0) \<noteq> at_hhmm 101 (22, 0)"
  by code_simp

section \<open>Properties of \<open>main_loop\<close>\<close>

lemma err_bind_simps [simp]:
  "err_bind (Inl e) f = Inl e" "err_bind (Inr x) f = f x"
  by (simp_all add: err_bind_def)

lemma run_action_fields [simp]:
  "jobs (run_action en f w) = jobs w" "fired (run_action en f w) = fired w"
  by (cases f; simp add: run_action_def)+

lemma run_job_fired: "fired (run_job en i w) = fired w @ [(clock w, jobs w ! i)]"
  by (simp add: run_job_def Let_def)

lemma run_job_jobs:
  "jobs (run_job en i w) =
     (jobs w)[i := (jobs w ! i)\<lparr>next_run :=
        next_occurrence (clock (run_action en (job_func (jobs w ! i))
           (w\<lparr>fired := fired w @ [(clock w, jobs w ! i)]\<rparr>))) (at_time (jobs w ! i))\<rparr>]"
  by (simp add: run_job_def Let_def)

lemma fold_run_job_fired:
  assumes "distinct is" and "\<forall>i\<in>set is. next_run (jobs w ! i) \<le> T"
  shows "\<exists>new. fired (fold (run_job en) is w) = fired w @ new
           \<and> (\<forall>e\<in>set new. next_run (snd e) \<le> T)"
  using assms
proof (induction "is" arbitrary: w)
  case Nil
  show ?case by simp
next
  case (Cons i "is")
  let ?w1 = "run_job en i w"
  have "\<forall>k\<in>set is. jobs ?w1 ! k = jobs w ! k"
  proof
    fix k assume "k \<in> set is"
    then have "i \<noteq> k" using Cons.prems(1) by auto
    then show "jobs ?w1 ! k = jobs w ! k" by (simp add: run_job_jobs)
  qed
  then have "\<forall>k\<in>set is. next_run (jobs ?w1 ! k) \<le> T" using Cons.prems(2) by simp
  then obtain new where new: "fired (fold (run_job en) is ?w1) = fired ?w1 @ new"
    "\<forall>e\<in>set new. next_run (snd e) \<le> T"
    using Cons.IH[of ?w1] Cons.prems(1) by auto
  have "fired (fold (run_job en) (i # is) w) = fired w @ ((clock w, jobs w ! i) # new)"
    using new(1) by (simp add: run_job_fired)
  moreover have "\<forall>e\<in>set ((clock w, jobs w ! i) # new). next_run (snd e) \<le> T"
    using new(2) Cons.prems(2) by simp
  ultimately show ?case by blast
qed

lemma run_pending_fired:
  "\<exists>new. fired (run_pending en w) = fired w @ new
     \<and> (\<forall>e\<in>set new. next_run (snd e) \<le> clock w)"
  unfolding run_pending_def Let_def
  by (rule fold_run_job_fired) simp_all

lemma run_until_fired:
  "\<exists>new. fired (run_until en dt_isha w) = fired w @ new
     \<and> (\<forall>e\<in>set new. next_run (snd e) \<le> dt_isha)"
proof (induction en dt_isha w rule: run_until.induct)
  case (1 en dt_isha w)
  show ?case
  proof (cases "dt_isha < clock w")
    case True
    then show ?thesis by (simp add: run_until.simps[of en dt_isha w])
  next
    case False
    let ?w1 = "sleep 30 (run_pending en w)"
    obtain n1 where n1: "fired (run_pending en w) = fired w @ n1"
      "\<forall>e\<in>set n1. next_run (snd e) \<le> clock w"
      using run_pending_fired by blast
    obtain n2 where n2: "fired (run_until en dt_isha ?w1) = fired ?w1 @ n2"
      "\<forall>e\<in>set n2. next_run (snd e) \<le> dt_isha"
      using 1[OF False] by blast
    have "fired (run_until en dt_isha w) = fired w @ (n1 @ n2)"
      using False n1(1) n2(1) by (simp add: run_until.simps[of en dt_isha w])
    moreover have "\<forall>e\<in>set (n1 @ n2). next_run (snd e) \<le> dt_isha"
      using n1(2) n2(2) False by auto
    ultimately show ?thesis by blast
  qed
qed

lemma get_prayer_times_fields:
  assumes "get_prayer_times_for_date en d w = Inr (r, w1)"
  shows "clock w1 = clock w" "jobs w1 = jobs w" "fired w1 = fired w"
    "timings_of_response (provider en (clock w) d) = Inr r"
  using assms
  by (auto simp: get_prayer_times_for_date_def Let_def split: sum.splits option.splits)

lemma schedule_prayer_fired:
  "schedule_prayer d item w = Inr w' \<Longrightarrow> fired w' = fired w \<and> clock w' = clock w"
  by (cases item)
    (auto simp: schedule_prayer_def err_bind_def Let_def split: sum.splits if_splits)

lemma schedule_prayers_fired:
  "schedule_prayers d pt w = Inr w' \<Longrightarrow> fired w' = fired w \<and> clock w' = clock w"
proof (induction pt arbitrary: w)
  case Nil
  then show ?case by simp
next
  case (Cons item pt)
  then obtain w1 where "schedule_prayer d item w = Inr w1" "schedule_prayers d pt w1 = Inr w'"
    by (auto simp: err_bind_def split: sum.splits)
  then show ?case using Cons.IH[of w1] schedule_prayer_fired[of d item w w1] by simp
qed

lemma schedule_daily_prayers_fired:
  assumes "schedule_daily_prayers d pt w = Inr w'"
  shows "fired w' = fired w \<and> clock w' = clock w"
proof -
  let ?w = "perform (Print (LogScheduling d) # map (\<lambda>(p, t_str). Print (LogPrayerTime p)) pt) w"
  have "clock ?w = clock w" by (rule perform_prints_clock) auto
  then show ?thesis
    using schedule_prayers_fired[of d pt ?w w'] assms by (simp add: schedule_daily_prayers_def)
qed

lemma schedule_test_time_fired:
  "schedule_test_time d s w = Inr w' \<Longrightarrow> fired w' = fired w \<and> clock w' = clock w"
  by (auto simp: schedule_test_time_def err_bind_def Let_def split: sum.splits if_splits)

text \<open>The two shapes of a pass through the loop body that completes.\<close>

lemma main_loop_body_cases:
  assumes "main_loop_body en (d, w) = Inr (d', w')"
  obtains (retry) w1 where
      "get_prayer_times_for_date en d (schedule_clear w) = Inr (None, w1)"
      "d' = d" "w' = sleep 3600 (emit (Print LogRetryInHour) w1)"
  | (day) pt w1 w2 w3 t dt_isha where
      "get_prayer_times_for_date en d (schedule_clear w) = Inr (Some pt, w1)"
      "schedule_daily_prayers d pt w1 = Inr w2"
      "schedule_test_time d (TEST_TIME en) w2 = Inr w3"
      "map_of pt ''Isha'' = Some t" "prayer_instant d t = Inr dt_isha"
      "d' = d + 1" "w' = run_until en dt_isha w3"
proof -
  obtain r w1 where g: "get_prayer_times_for_date en d (schedule_clear w) = Inr (r, w1)"
    using assms
    by (cases "get_prayer_times_for_date en d (schedule_clear w)")
      (auto simp: main_loop_body_def)
  show thesis
  proof (cases r)
    case None
    have "main_loop_body en (d, w) = Inr (d, sleep 3600 (emit (Print LogRetryInHour) w1))"
      using g None by (simp add: main_loop_body_def)
    then have "d' = d" "w' = sleep 3600 (emit (Print LogRetryInHour) w1)"
      using assms by simp_all
    moreover have "get_prayer_times_for_date en d (schedule_clear w) = Inr (None, w1)"
      using g None by simp
    ultimately show ?thesis by (intro retry[of w1])
  next
    case (Some pt)
    have b: "err_bind (schedule_daily_prayers d pt w1) (\<lambda>w2.
            err_bind (schedule_test_time d (TEST_TIME en) w2) (\<lambda>w3.
            err_bind (case map_of pt ''Isha'' of
                        None \<Rightarrow> Inl KeyError
                      | Some t_str \<Rightarrow> parse_time_of t_str) (\<lambda>(isha_hh, isha_mm).
            err_bind (datetime d isha_hh isha_mm) (\<lambda>dt_isha.
            Inr (d + 1, run_until en dt_isha w3))))) = Inr (d', w')"
      using assms g Some by (simp add: main_loop_body_def)
    then obtain w2 where w2: "schedule_daily_prayers d pt w1 = Inr w2"
      by (cases "schedule_daily_prayers d pt w1") simp_all
    from b w2 obtain w3 where w3: "schedule_test_time d (TEST_TIME en) w2 = Inr w3"
      by (cases "schedule_test_time d (TEST_TIME en) w2") simp_all
    from b w2 w3 obtain t where t: "map_of pt ''Isha'' = Some t"
      by (cases "map_of pt ''Isha''") simp_all
    from b w2 w3 t obtain hh mm where hm: "parse_time_of t = Inr (hh, mm)"
      by (cases "parse_time_of t") auto
    from b w2 w3 t hm obtain dt_isha where dt: "datetime d hh mm = Inr dt_isha"
      by (cases "datetime d hh mm") simp_all
    from b w2 w3 t hm dt have e: "d' = d + 1" "w' = run_until en dt_isha w3"
      by simp_all
    have "prayer_instant d t = Inr dt_isha"
      using hm dt by (simp add: prayer_instant_def err_bind_def)
    moreover have "get_prayer_times_for_date en d (schedule_clear w) = Inr (Some pt, w1)"
      using g Some by simp
    ultimately show ?thesis using w2 w3 t e by (intro day[of pt w1 w2 w3 t dt_isha])
  qed
qed

lemma dates_handled_fields [simp]:
  "dates_handled (w\<lparr>jobs := js\<rparr>) = dates_handled w"
  "dates_handled (w\<lparr>fired := fs\<rparr>) = dates_handled w"
  "dates_handled (emit e w) = dates_handled w @ dated e"
  "dates_handled (sleep n w) = dates_handled w"
  "dates_handled (every_day_at_do t f w) = dates_handled w"
  "dates_handled (schedule_clear w) = dates_handled w"
  by (simp_all add: dates_handled_def schedule_clear_def)

lemma dates_handled_perform:
  "dates_handled (perform es w) = dates_handled w @ concat (map dated es)"
  by (induction es w rule: perform.induct) simp_all

lemma play_azan_undated: "concat (map dated (play_azan target dev)) = []"
  by (auto simp: play_azan_def connect_to_google_home_def Let_def split: option.splits)

lemma dates_handled_run_action [simp]:
  "dates_handled (run_action en f w) = dates_handled w"
  by (cases f) (simp_all add: run_action_def dates_handled_perform play_azan_undated)

lemma dates_handled_run_job [simp]: "dates_handled (run_job en i w) = dates_handled w"
  by (simp add: run_job_def Let_def)

lemma dates_handled_fold_run_job:
  "dates_handled (fold (run_job en) is w) = dates_handled w"
  by (induction "is" arbitrary: w) simp_all

lemma dates_handled_run_pending [simp]:
  "dates_handled (run_pending en w) = dates_handled w"
  by (simp add: run_pending_def Let_def dates_handled_fold_run_job)

lemma dates_handled_run_until [simp]:
  "dates_handled (run_until en dt_isha w) = dates_handled w"
proof (induction en dt_isha w rule: run_until.induct)
  case (1 en dt_isha w)
  show ?case
  proof (cases "dt_isha < clock w")
    case True
    then show ?thesis by (simp add: run_until.simps[of en dt_isha w])
  next
    case False
    then show ?thesis using 1[OF False] by (simp add: run_until.simps[of en dt_isha w])
  qed
qed

lemma dates_handled_schedule_prayer:
  "schedule_prayer d item w = Inr w' \<Longrightarrow> dates_handled w' = dates_handled w"
  by (cases item)
    (auto simp: schedule_prayer_def err_bind_def Let_def split: sum.splits if_splits)

lemma dates_handled_schedule_prayers:
  "schedule_prayers d pt w = Inr w' \<Longrightarrow> dates_handled w' = dates_handled w"
proof (induction pt arbitrary: w)
  case Nil
  then show ?case by simp
next
  case (Cons item pt)
  then obtain w1 where "schedule_prayer d item w = Inr w1" "schedule_prayers d pt w1 = Inr w'"
    by (cases "schedule_prayer d item w") auto
  then show ?case using Cons.IH[of w1] dates_handled_schedule_prayer[of d item w w1] by simp
qed

lemma dates_handled_schedule_daily_prayers:
  assumes "schedule_daily_prayers d pt w = Inr w'"
  shows "dates_handled w' = dates_handled w @ [d]"
proof -
  have "concat (map dated (map (\<lambda>(p, t_str). Print (LogPrayerTime p)) pt)) = []"
    by (induction pt) auto
  then show ?thesis
    using dates_handled_schedule_prayers[OF assms[unfolded schedule_daily_prayers_def]]
    by (simp add: dates_handled_perform)
qed

lemma dates_handled_schedule_test_time:
  "schedule_test_time d s w = Inr w' \<Longrightarrow> dates_handled w' = dates_handled w"
  by (auto simp: schedule_test_time_def err_bind_def Let_def split: sum.splits if_splits)

lemma dates_handled_get_prayer_times:
  "get_prayer_times_for_date en d w = Inr (r, w1) \<Longrightarrow> dates_handled w1 = dates_handled w @ [d]"
  by (auto simp: get_prayer_times_for_date_def Let_def split: sum.splits option.splits)

lemma main_loop_body_dates:
  assumes "main_loop_body en (d, w) = Inr (d', w')"
  shows "d \<le> d' \<and> (\<exists>ds. dates_handled w' = dates_handled w @ ds \<and> (\<forall>x\<in>set ds. x = d))"
  using assms
proof (cases rule: main_loop_body_cases)
  case (retry w1)
  then show ?thesis using dates_handled_get_prayer_times[OF retry(1)] by simp
next
  case (day pt w1 w2 w3 t dt_isha)
  have "dates_handled w' = dates_handled w @ [d, d]"
    using dates_handled_get_prayer_times[OF day(1)] dates_handled_schedule_daily_prayers[OF day(2)]
      dates_handled_schedule_test_time[OF day(3)] day(7) by simp
  then show ?thesis using day(6) by simp
qed

lemma main_loop_dates:
  "main_loop en n (d, w) = Inr (d', w') \<Longrightarrow>
   d \<le> d' \<and> (\<exists>ds. dates_handled w' = dates_handled w @ ds \<and> (\<forall>x\<in>set ds. d \<le> x))"
proof (induction n arbitrary: d w)
  case 0
  then show ?case by simp
next
  case (Suc n)
  then obtain d1 w1 where 1: "main_loop_body en (d, w) = Inr (d1, w1)"
    "main_loop en n (d1, w1) = Inr (d', w')"
    by (cases "main_loop_body en (d, w)") auto
  obtain ds1 where ds1: "d \<le> d1" "dates_handled w1 = dates_handled w @ ds1" "\<forall>x\<in>set ds1. x = d"
    using main_loop_body_dates[OF 1(1)] by blast
  obtain ds2 where ds2: "d1 \<le> d'" "dates_handled w' = dates_handled w1 @ ds2" "\<forall>x\<in>set ds2. d1 \<le> x"
    using Suc.IH[OF 1(2)] by blast
  have "dates_handled w' = dates_handled w @ (ds1 @ ds2)" using ds1(2) ds2(2) by simp
  moreover have "\<forall>x\<in>set (ds1 @ ds2). d \<le> x" using ds1 ds2 by auto
  ultimately show ?case using ds1(1) ds2(1) by (metis order_trans)
qed
lemma schedule_test_time_skips:
  assumes "s = [] \<or> (\<exists>e. parse_time s = Inl e)
    \<or> (\<exists>hh mm dt. parse_time s = Inr (hh, mm) \<and> datetime d hh mm = Inr dt \<and> dt \<le> clock w)"
  shows "\<exists>w'. schedule_test_time d s w = Inr w' \<and> jobs w' = jobs w \<and> clock w' = clock w
    \<and> fired w' = fired w"
  using assms by (auto simp: schedule_test_time_def Let_def)

lemma main_loop_body_retry:
  assumes "timings_of_response (provider en (clock w) d) = Inr None"
  shows "main_loop_body en (d, w) =
    Inr (d, sleep 3600 (emit (Print LogRetryInHour) (emit (Print LogNoValidTimes)
      (emit (HttpGet d) (emit (Print (LogFetching d)) (schedule_clear w))))))"
  using assms
  by (simp add: main_loop_body_def get_prayer_times_for_date_def Let_def schedule_clear_def)

lemma timings_of_response_not_200:
  "status_code \<noteq> 200 \<Longrightarrow> timings_of_response (Response status_code body) = Inr None"
  by (simp add: timings_of_response_def)

lemma main_loop_body_after_isha:
  assumes t: "timings_of_response (provider en (clock w) d) = Inr (Some pt)"
    and p: "list_all2 (\<lambda>nv np. fst np = fst nv \<and> prayer_instant d (snd nv) = Inr (snd np)) pt nps"
    and i: "map_of pt ''Isha'' = Some t_isha" "prayer_instant d t_isha = Inr dt_isha"
    and late: "dt_isha < clock w" "\<forall>np\<in>set nps. snd np \<le> dt_isha"
    and test: "TEST_TIME en = [] \<or> (\<exists>e. parse_time (TEST_TIME en) = Inl e)
      \<or> (\<exists>hh mm dt. parse_time (TEST_TIME en) = Inr (hh, mm) \<and> datetime d hh mm = Inr dt
            \<and> dt \<le> clock w)"
  shows "\<exists>w'. main_loop_body en (d, w) = Inr (d + 1, w') \<and> jobs w' = []
    \<and> fired w' = fired w \<and> clock w' = clock w"
proof -
  let ?w1 = "emit (HttpGet d) (emit (Print (LogFetching d)) (schedule_clear w))"
  have g: "get_prayer_times_for_date en d (schedule_clear w) = Inr (Some pt, ?w1)"
    using t by (simp add: get_prayer_times_for_date_def Let_def schedule_clear_def)
  have w1: "clock ?w1 = clock w" "jobs ?w1 = []" "fired ?w1 = fired w"
    by (simp_all add: schedule_clear_def)
  obtain w2 where w2: "schedule_daily_prayers d pt ?w1 = Inr w2" "clock w2 = clock ?w1"
    "fired w2 = fired ?w1" "jobs w2 = jobs ?w1 @ concat (map (prayer_jobs (clock ?w1)) nps)"
    using schedule_daily_prayers_jobs[OF p, of ?w1] by blast
  have "prayer_jobs (clock w) np = []" if "np \<in> set nps" for np
  proof -
    have "snd np \<le> dt_isha" using that late(2) by simp
    then have "\<not> clock w < snd np - usec_per_minute"
      using late(1) by (simp add: usec_per_minute_def)
    then show ?thesis by (cases np) (simp add: prayer_jobs_def)
  qed
  then have j2: "jobs w2 = []" using w2(4) w1 by simp
  obtain w3 where w3: "schedule_test_time d (TEST_TIME en) w2 = Inr w3" "jobs w3 = jobs w2"
    "clock w3 = clock w2" "fired w3 = fired w2"
    using schedule_test_time_skips[of "TEST_TIME en" d w2] test w2(2) w1(1) by auto
  obtain hh mm where hm: "parse_time_of t_isha = Inr (hh, mm)" "datetime d hh mm = Inr dt_isha"
    using i(2) by (cases "parse_time_of t_isha") (auto simp: prayer_instant_def)
  have r: "run_until en dt_isha w3 = emit (Print LogIshaPassed) w3"
    using late(1) w3(3) w2(2) w1(1) by (simp add: run_until.simps[of en dt_isha w3])
  have "main_loop_body en (d, w) = Inr (d + 1, emit (Print LogIshaPassed) w3)"
    by (simp add: main_loop_body_def g w2(1) w3(1) i(1) hm r)
  then show ?thesis using w3 w2 w1 j2 by simp
qed

lemma clock_polls_mono: "clock w \<le> clock (polls en k w)"
proof (induction k arbitrary: w)
  case 0
  show ?case by simp
next
  case (Suc k)
  have "clock w \<le> clock (sleep 30 (run_pending en w))"
    using clock_run_pending_mono[of w en] by (simp add: usec_per_second_def)
  also have "\<dots> \<le> clock (polls en k (sleep 30 (run_pending en w)))" by (rule Suc.IH)
  finally show ?case by simp
qed

lemma run_until_polls:
  "clock (polls en k w) \<le> dt_isha \<Longrightarrow> run_until en dt_isha w = run_until en dt_isha (polls en k w)"
proof (induction k arbitrary: w)
  case 0
  show ?case by simp
next
  case (Suc k)
  let ?w1 = "sleep 30 (run_pending en w)"
  have "clock w \<le> clock (polls en (Suc k) w)" by (rule clock_polls_mono)
  then have "\<not> dt_isha < clock w" using Suc.prems by simp
  then have "run_until en dt_isha w = run_until en dt_isha ?w1"
    by (simp add: run_until.simps[of en dt_isha w])
  also have "\<dots> = run_until en dt_isha (polls en k ?w1)"
    using Suc.IH[of ?w1] Suc.prems by simp
  finally show ?case by simp
qed

lemma azans_started_run_until:
  "\<exists>more. azans_started (run_until en dt_isha w) = azans_started w @ more"
proof -
  obtain new where "fired (run_until en dt_isha w) = fired w @ new"
    using run_until_fired by blast
  then show ?thesis by (simp add: azans_started_def)
qed

lemma main_loop_body_day:
  assumes "get_prayer_times_for_date en d (schedule_clear w) = Inr (Some pt, w1)"
    and "schedule_daily_prayers d pt w1 = Inr w2"
    and "schedule_test_time d (TEST_TIME en) w2 = Inr w3"
    and "map_of pt ''Isha'' = Some t" and "prayer_instant d t = Inr dt_isha"
  shows "main_loop_body en (d, w) = Inr (d + 1, run_until en dt_isha w3)"
proof -
  obtain hh mm where "parse_time_of t = Inr (hh, mm)" "datetime d hh mm = Inr dt_isha"
    using assms(5) by (cases "parse_time_of t") (auto simp: prayer_instant_def)
  then show ?thesis using assms(1-4) by (simp add: main_loop_body_def)
qed

text \<open>
  Claim C9, as amended. Every job the inner loop runs has its next run no later than
  the Isha instant the loop waits for, and the same holds for a whole pass of
  \<open>main_loop\<close> with the Isha instant of its date: an event whose first run is strictly
  after that instant is not run in the pass, and the next pass discards it, since a
  pass clears the scheduler first and does not depend on what was pending. The first
  run of an event is the instant computed for it whenever that instant is at most 24
  hours ahead of the build time. (The clock of the model stands still between the
  loop's check and the library's own reading in \<open>run_pending\<close>.)
\<close>

theorem no_event_runs_after_isha:
  "(\<exists>new. fired (run_until en dt_isha w) = fired w @ new
       \<and> (\<forall>e\<in>set new. next_run (snd e) \<le> dt_isha))
   \<and> (main_loop_body en (d, w) = Inr (d', w') \<longrightarrow>
        (\<exists>new. fired w' = fired w @ new
           \<and> (\<forall>pt t dt. timings_of_response (provider en (clock w) d) = Inr (Some pt)
                 \<and> map_of pt ''Isha'' = Some t \<and> prayer_instant d t = Inr dt
               \<longrightarrow> (\<forall>e\<in>set new. next_run (snd e) \<le> dt))))
   \<and> main_loop_body en (d, w\<lparr>jobs := pending\<rparr>) = main_loop_body en (d, w)
   \<and> (t mod usec_per_minute = 0 \<and> clock w < t \<and> t \<le> clock w + usec_per_day \<longrightarrow>
        jobs (every_day_at_do (strftime_HM t) f w)
          = jobs w @ [\<lparr>at_time = strftime_HM t, next_run = t, job_func = f\<rparr>])"
proof (intro conjI impI)
  assume "t mod usec_per_minute = 0 \<and> clock w < t \<and> t \<le> clock w + usec_per_day"
  then have "next_occurrence (clock w) (strftime_HM t) = t"
    using next_occurrence_exact[of t "clock w"] by simp
  then show "jobs (every_day_at_do (strftime_HM t) f w)
      = jobs w @ [\<lparr>at_time = strftime_HM t, next_run = t, job_func = f\<rparr>]"
    by simp
next
  show "\<exists>new. fired (run_until en dt_isha w) = fired w @ new
       \<and> (\<forall>e\<in>set new. next_run (snd e) \<le> dt_isha)"
    by (rule run_until_fired)
next
  show "main_loop_body en (d, w\<lparr>jobs := pending\<rparr>) = main_loop_body en (d, w)"
    by (simp add: main_loop_body_def schedule_clear_def)
next
  assume a: "main_loop_body en (d, w) = Inr (d', w')"
  have c: "clock (schedule_clear w) = clock w" "fired (schedule_clear w) = fired w"
    by (simp_all add: schedule_clear_def)
  from a show "\<exists>new. fired w' = fired w @ new
           \<and> (\<forall>pt t dt. timings_of_response (provider en (clock w) d) = Inr (Some pt)
                 \<and> map_of pt ''Isha'' = Some t \<and> prayer_instant d t = Inr dt
               \<longrightarrow> (\<forall>e\<in>set new. next_run (snd e) \<le> dt))"
  proof (cases rule: main_loop_body_cases)
    case (retry w1)
    then have "fired w' = fired w @ []"
      using get_prayer_times_fields(3)[OF retry(1)] c by simp
    then show ?thesis by (metis empty_iff list.set(1))
  next
    case (day pt w1 w2 w3 t dt_isha)
    have f: "fired w3 = fired w"
      using get_prayer_times_fields(3)[OF day(1)] schedule_daily_prayers_fired[OF day(2)]
        schedule_test_time_fired[OF day(3)] c by simp
    have r: "timings_of_response (provider en (clock w) d) = Inr (Some pt)"
      using get_prayer_times_fields(4)[OF day(1)] c by simp
    obtain new where new: "fired w' = fired w3 @ new" "\<forall>e\<in>set new. next_run (snd e) \<le> dt_isha"
      using run_until_fired[of en dt_isha w3] day(7) by auto
    show ?thesis using new f r day(4,5) by auto
  qed
qed

theorem no_event_runs_after_isha_witness:
  "(\<exists>w'. main_loop_body (example_env (answer_on 100 example_times) ''22:00'')
           (100, world_at (at_hhmm 100 (21, 0))) = Inr (101, w')
     \<and> (\<forall>e\<in>set (fired w'). next_run (snd e) \<le> at_hhmm 100 (21, 20))
     \<and> length (fired w') = 2
     \<and> at_hhmm 100 (22, 0) \<in> set (alert_runs (jobs w')))
   \<and> alert_runs (jobs (every_day_at_do (strftime_HM (at_hhmm 100 (22, 0))) PlayAzan
          (world_at (at_hhmm 100 (21, 0))))) = [at_hhmm 100 (22, 0)]"
proof -
  let ?en = "example_env (answer_on 100 example_times) ''22:00''"
  let ?w = "world_at (at_hhmm 100 (21, 0))"
  note T = no_event_runs_after_isha[where en = ?en and w = ?w and d = 100 and d' = 101
      and t = "at_hhmm 100 (22, 0)" and f = PlayAzan and pending = "[]" and dt_isha = 0]
  have "map_sum id (\<lambda>s. (fst s, length (fired (snd s)), alert_runs (jobs (snd s))))
      (main_loop_body ?en (100, ?w)) = Inr (101, 2, [at_hhmm 101 (21, 19), at_hhmm 100 (22, 0)])"
    by code_simp
  then obtain w' where w': "main_loop_body ?en (100, ?w) = Inr (101, w')"
    "length (fired w') = 2" "alert_runs (jobs w') = [at_hhmm 101 (21, 19), at_hhmm 100 (22, 0)]"
    by (cases "main_loop_body ?en (100, ?w)") auto
  have t: "timings_of_response (provider ?en (clock ?w) 100) = Inr (Some example_times)"
    "map_of example_times ''Isha'' = Some (JStr ''21:20'')"
    "prayer_instant 100 (JStr ''21:20'') = Inr (at_hhmm 100 (21, 20))"
    by code_simp+
  have f: "fired ?w = []" "jobs ?w = []" by (simp_all add: world_at_def)
  obtain new where "fired w' = fired ?w @ new"
    "\<forall>e\<in>set new. next_run (snd e) \<le> at_hhmm 100 (21, 20)"
    using T[THEN conjunct2, THEN conjunct1, of w'] w'(1) t by blast
  then have 1: "\<exists>w'. main_loop_body ?en (100, ?w) = Inr (101, w')
     \<and> (\<forall>e\<in>set (fired w'). next_run (snd e) \<le> at_hhmm 100 (21, 20))
     \<and> length (fired w') = 2
     \<and> at_hhmm 100 (22, 0) \<in> set (alert_runs (jobs w'))"
    using w' f by auto
  have h: "at_hhmm 100 (22, 0) mod usec_per_minute = 0"
    "clock ?w < at_hhmm 100 (22, 0)" "at_hhmm 100 (22, 0) \<le> clock ?w + usec_per_day"
    by (simp_all add: world_at_def at_hhmm_def usec_per_day_def usec_per_hour_def
        usec_per_minute_def)
  have 2: "alert_runs (jobs (every_day_at_do (strftime_HM (at_hhmm 100 (22, 0))) PlayAzan ?w))
      = [at_hhmm 100 (22, 0)]"
    using T[THEN conjunct2, THEN conjunct2, THEN conjunct2] h f(2)
    by (simp add: alert_runs_def)
  show ?thesis using 1 2 by blast
qed

text \<open>
  The claim as first worded fails for the instant computed for an event. With Isha at
  21:20 and a daily test time of 22:00, the pass for day 100 leaves the test job unrun
  and the pass for day 101 clears it; but that pass starts in the evening of day 100,
  and the job it registers for 22:00 of day 101 first runs at the next 22:00: an azan
  is played at 22:00:02 of day 100, after the Isha of day 100, for an event computed
  for after the Isha of day 101.
\<close>

theorem stale_event_counterexample:
  "map_sum id (take 2 \<circ> azans_started \<circ> snd)
     (main_loop (example_env (every_day example_times) ''22:00'') 2
        (100, world_at (at_hhmm 100 (21, 0))))
     = Inr [(at_hhmm 100 (21, 19), (21, 19)),
            (at_hhmm 100 (22, 0) + 2 * usec_per_second, (22, 0))]
   \<and> datetime 101 22 0 = Inr (at_hhmm 101 (22, 0))
   \<and> prayer_instant 100 (JStr ''21:20'') = Inr (at_hhmm 100 (21, 20))
   \<and> prayer_instant 101 (JStr ''21:20'') = Inr (at_hhmm 101 (21, 20))
   \<and> at_hhmm 100 (21, 20) < at_hhmm 100 (22, 0) + 2 * usec_per_second
   \<and> at_hhmm 101 (21, 20) < at_hhmm 101 (22, 0)"
proof -
  let ?en = "example_env (every_day example_times) ''22:00''"
  let ?w = "world_at (at_hhmm 100 (21, 0))"
  define v0 where "v0 = snd (projr (main_loop_body ?en (100, ?w)))"
  define v1 where "v1 = snd (projr (get_prayer_times_for_date ?en 101 (schedule_clear v0)))"
  define v2 where "v2 = projr (schedule_daily_prayers 101 example_times v1)"
  define v3 where "v3 = projr (schedule_test_time 101 ''22:00'' v2)"
  have "map_sum id fst (main_loop_body ?en (100, ?w)) = Inr 101" by code_simp
  then have p0: "main_loop_body ?en (100, ?w) = Inr (101, v0)"
    unfolding v0_def by (cases "main_loop_body ?en (100, ?w)") auto
  have "map_sum id fst (get_prayer_times_for_date ?en 101 (schedule_clear v0))
      = Inr (Some example_times)"
    unfolding v0_def by code_simp
  then have p1: "get_prayer_times_for_date ?en 101 (schedule_clear v0) = Inr (Some example_times, v1)"
    unfolding v1_def by (cases "get_prayer_times_for_date ?en 101 (schedule_clear v0)") auto
  have "\<not> isl (schedule_daily_prayers 101 example_times v1)"
    unfolding v1_def v0_def by code_simp
  then have p2: "schedule_daily_prayers 101 example_times v1 = Inr v2"
    unfolding v2_def by simp
  have "\<not> isl (schedule_test_time 101 ''22:00'' v2)"
    unfolding v2_def v1_def v0_def by code_simp
  then have p3: "schedule_test_time 101 (TEST_TIME ?en) v2 = Inr v3"
    unfolding v3_def by (simp add: example_env_def)
  have i: "map_of example_times ''Isha'' = Some (JStr ''21:20'')"
    "prayer_instant 101 (JStr ''21:20'') = Inr (at_hhmm 101 (21, 20))"
    "prayer_instant 100 (JStr ''21:20'') = Inr (at_hhmm 100 (21, 20))"
    "datetime 101 22 0 = Inr (at_hhmm 101 (22, 0))"
    by code_simp+
  have b: "main_loop_body ?en (101, v0) = Inr (101 + 1, run_until ?en (at_hhmm 101 (21, 20)) v3)"
    using p1 p2 p3 i(1,2) by (rule main_loop_body_day)
  have k: "clock (polls ?en 80 v3) \<le> at_hhmm 101 (21, 20)"
    "azans_started (polls ?en 80 v3)
       = [(at_hhmm 100 (21, 19), (21, 19)),
          (at_hhmm 100 (22, 0) + 2 * usec_per_second, (22, 0))]"
    unfolding v3_def v2_def v1_def v0_def by code_simp+
  obtain more where "azans_started (run_until ?en (at_hhmm 101 (21, 20)) (polls ?en 80 v3))
      = azans_started (polls ?en 80 v3) @ more"
    using azans_started_run_until by blast
  then have "take 2 (azans_started (run_until ?en (at_hhmm 101 (21, 20)) v3))
      = [(at_hhmm 100 (21, 19), (21, 19)),
         (at_hhmm 100 (22, 0) + 2 * usec_per_second, (22, 0))]"
    using run_until_polls[OF k(1)] k(2) by simp
  moreover have "main_loop ?en 2 (100, ?w)
      = Inr (101 + 1, run_until ?en (at_hhmm 101 (21, 20)) v3)"
    using p0 b by (simp add: numeral_2_eq_2)
  moreover have "at_hhmm 100 (21, 20) < at_hhmm 100 (22, 0) + 2 * usec_per_second"
    "at_hhmm 101 (21, 20) < at_hhmm 101 (22, 0)"
    by code_simp+
  ultimately show ?thesis using i by simp
qed

text \<open>
  Claim C4, as amended. A pass that got times for its date ends with the next date;
  after such a pass, every later request and every later scheduling is for a later
  date. And if the process starts after today's Isha, with no prayer of today later
  than Isha and no test time still ahead, the first pass schedules nothing, runs no
  job, does not sleep, and ends with tomorrow's date.
\<close>

theorem day_rollover:
  "(main_loop_body en (d, w) = Inr (d', w')
      \<and> timings_of_response (provider en (clock w) d) = Inr (Some pt) \<longrightarrow> d' = d + 1)
   \<and> (main_loop_body en (d, w) = Inr (d + 1, w') \<and> main_loop en n (d + 1, w') = Inr (d'', w'')
        \<longrightarrow> (\<exists>ds. dates_handled w'' = dates_handled w' @ ds \<and> (\<forall>x\<in>set ds. d < x)))
   \<and> (timings_of_response (provider en (clock w) (date_of (clock w))) = Inr (Some pt)
        \<and> list_all2 (\<lambda>nv np. fst np = fst nv
              \<and> prayer_instant (date_of (clock w)) (snd nv) = Inr (snd np)) pt nps
        \<and> map_of pt ''Isha'' = Some t_isha
        \<and> prayer_instant (date_of (clock w)) t_isha = Inr dt_isha
        \<and> dt_isha < clock w \<and> (\<forall>np\<in>set nps. snd np \<le> dt_isha)
        \<and> (TEST_TIME en = [] \<or> (\<exists>e. parse_time (TEST_TIME en) = Inl e)
            \<or> (\<exists>hh mm dt. parse_time (TEST_TIME en) = Inr (hh, mm)
                  \<and> datetime (date_of (clock w)) hh mm = Inr dt \<and> dt \<le> clock w))
        \<longrightarrow> (\<exists>v. main_loop_body en (initial_state w) = Inr (date_of (clock w) + 1, v)
               \<and> jobs v = [] \<and> fired v = fired w \<and> clock v = clock w))"
proof (intro conjI impI)
  assume a: "main_loop_body en (d, w) = Inr (d', w')
      \<and> timings_of_response (provider en (clock w) d) = Inr (Some pt)"
  then have b: "main_loop_body en (d, w) = Inr (d', w')" by simp
  from b show "d' = d + 1"
  proof (cases rule: main_loop_body_cases)
    case (retry w1)
    have "timings_of_response (provider en (clock (schedule_clear w)) d) = Inr None"
      using get_prayer_times_fields(4)[OF retry(1)] .
    then show ?thesis using a by (simp add: schedule_clear_def)
  next
    case (day pt w1 w2 w3 t dt_isha)
    then show ?thesis by simp
  qed
next
  assume "main_loop_body en (d, w) = Inr (d + 1, w') \<and> main_loop en n (d + 1, w') = Inr (d'', w'')"
  then obtain ds where "dates_handled w'' = dates_handled w' @ ds" "\<forall>x\<in>set ds. d + 1 \<le> x"
    using main_loop_dates[of en n "d + 1" w' d'' w''] by blast
  then show "\<exists>ds. dates_handled w'' = dates_handled w' @ ds \<and> (\<forall>x\<in>set ds. d < x)"
    by (metis add1_zle_eq)
next
  assume a: "timings_of_response (provider en (clock w) (date_of (clock w))) = Inr (Some pt)
        \<and> list_all2 (\<lambda>nv np. fst np = fst nv
              \<and> prayer_instant (date_of (clock w)) (snd nv) = Inr (snd np)) pt nps
        \<and> map_of pt ''Isha'' = Some t_isha
        \<and> prayer_instant (date_of (clock w)) t_isha = Inr dt_isha
        \<and> dt_isha < clock w \<and> (\<forall>np\<in>set nps. snd np \<le> dt_isha)
        \<and> (TEST_TIME en = [] \<or> (\<exists>e. parse_time (TEST_TIME en) = Inl e)
            \<or> (\<exists>hh mm dt. parse_time (TEST_TIME en) = Inr (hh, mm)
                  \<and> datetime (date_of (clock w)) hh mm = Inr dt \<and> dt \<le> clock w))"
  show "\<exists>v. main_loop_body en (initial_state w) = Inr (date_of (clock w) + 1, v)
               \<and> jobs v = [] \<and> fired v = fired w \<and> clock v = clock w"
    unfolding initial_state_def
    using main_loop_body_after_isha[of en w "date_of (clock w)" pt nps t_isha dt_isha] a
    by blast
qed

theorem day_rollover_witness:
  "\<exists>w' d'' w'' ds.
     main_loop_body (example_env (answer_on 100 example_times) [])
       (initial_state (world_at (at_hhmm 100 (22, 0)))) = Inr (101, w')
     \<and> jobs w' = [] \<and> fired w' = [] \<and> clock w' = at_hhmm 100 (22, 0)
     \<and> main_loop (example_env (answer_on 100 example_times) []) 1 (101, w') = Inr (d'', w'')
     \<and> dates_handled w'' = dates_handled w' @ ds \<and> (\<forall>x\<in>set ds. 100 < x)"
proof -
  let ?en = "example_env (answer_on 100 example_times) []"
  let ?w = "world_at (at_hhmm 100 (22, 0))"
  let ?nps = "[(''Fajr'', at_hhmm 100 (5, 12)), (''Dhuhr'', at_hhmm 100 (13, 5)),
    (''Asr'', at_hhmm 100 (16, 40)), (''Maghrib'', at_hhmm 100 (19, 58)),
    (''Isha'', at_hhmm 100 (21, 20))]"
  have d: "date_of (clock ?w) = 100" by code_simp
  have c: "clock ?w = at_hhmm 100 (22, 0)" "fired ?w = []" by (simp_all add: world_at_def)
  have p: "prayer_instant 100 (JStr ''05:12'') = Inr (at_hhmm 100 (5, 12))"
    "prayer_instant 100 (JStr ''13:05'') = Inr (at_hhmm 100 (13, 5))"
    "prayer_instant 100 (JStr ''16:40'') = Inr (at_hhmm 100 (16, 40))"
    "prayer_instant 100 (JStr ''19:58'') = Inr (at_hhmm 100 (19, 58))"
    "prayer_instant 100 (JStr ''21:20'') = Inr (at_hhmm 100 (21, 20))"
    by code_simp+
  have 1: "timings_of_response (provider ?en (clock ?w) (date_of (clock ?w)))
      = Inr (Some example_times)"
    by code_simp
  have 2: "list_all2 (\<lambda>nv np. fst np = fst nv
      \<and> prayer_instant (date_of (clock ?w)) (snd nv) = Inr (snd np)) example_times ?nps"
    unfolding d using p by (simp add: example_times_def)
  have 3: "map_of example_times ''Isha'' = Some (JStr ''21:20'')" by code_simp
  have 4: "prayer_instant (date_of (clock ?w)) (JStr ''21:20'') = Inr (at_hhmm 100 (21, 20))"
    unfolding d by (rule p(5))
  have 5: "at_hhmm 100 (21, 20) < clock ?w" "\<forall>np\<in>set ?nps. snd np \<le> at_hhmm 100 (21, 20)"
    by (simp_all add: world_at_def at_hhmm_def usec_per_day_def usec_per_hour_def
        usec_per_minute_def)
  have 6: "TEST_TIME ?en = []" by (simp add: example_env_def)
  obtain w' where w': "main_loop_body ?en (initial_state ?w) = Inr (date_of (clock ?w) + 1, w')"
    "jobs w' = []" "fired w' = fired ?w" "clock w' = clock ?w"
    using day_rollover[where en = ?en and w = ?w and pt = example_times and nps = ?nps
        and t_isha = "JStr ''21:20''" and dt_isha = "at_hhmm 100 (21, 20)"] 1 2 3 4 5 6
    by blast
  have i: "initial_state ?w = (100, ?w)" by (simp add: initial_state_def d)
  have b: "main_loop_body ?en (100, ?w) = Inr (100 + 1, w')" using w'(1) i d by simp
  have r: "timings_of_response (provider ?en (clock w') 101) = Inr None"
    by (simp add: example_env_def answer_on_def timings_of_response_not_200)
  obtain w'' where w'': "main_loop ?en 1 (100 + 1, w') = Inr (101, w'')"
    using main_loop_body_retry[OF r] by simp
  obtain ds where "dates_handled w'' = dates_handled w' @ ds" "\<forall>x\<in>set ds. 100 < x"
    using day_rollover[where en = ?en and d = 100 and w = ?w and w' = w' and n = 1
        and d'' = 101 and w'' = w''] b w'' by blast
  then show ?thesis using w' w'' i d c by auto
qed

text \<open>
  The claim as first worded fails when Isha is not the last prayer of the calendar
  day: with Isha at 00:20 and a start at 01:00, the first pass schedules the alerts of
  the four other prayers, and they are discarded unfired when the loop leaves at once.
\<close>

theorem day_rollover_counterexample:
  "prayer_instant 100 (JStr ''00:20'') = Inr (at_hhmm 100 (0, 20))
   \<and> map_of midnight_isha_times ''Isha'' = Some (JStr ''00:20'')
   \<and> at_hhmm 100 (0, 20) < clock (world_at (at_hhmm 100 (1, 0)))
   \<and> initial_state (world_at (at_hhmm 100 (1, 0))) = (100, world_at (at_hhmm 100 (1, 0)))
   \<and> map_sum id (alert_runs \<circ> jobs \<circ> snd)
        (main_loop_body (example_env (answer_on 100 midnight_isha_times) [])
           (initial_state (world_at (at_hhmm 100 (1, 0)))))
      = Inr [at_hhmm 100 (3, 9), at_hhmm 100 (13, 4), at_hhmm 100 (17, 29),
             at_hhmm 100 (22, 39)]"
  by code_simp

text \<open>
  Claim C3, at the inputs where the code departs from it. A request that raises, a
  body that is no JSON, and timings without all five keys each raise an exception that
  nothing in \<open>main_loop\<close> catches; only the \<open>return None\<close> path (lemma
  \<open>main_loop_body_retry\<close>) is logged and retried after an hour for the same date.
\<close>

theorem fetch_failure_leaves_main_loop:
  "main_loop_body (example_env (\<lambda>d. RequestRaises) [])
      (100, world_at (at_hhmm 100 (4, 0))) = Inl ConnectionError
   \<and> main_loop_body (example_env (\<lambda>d. Response 200 None) [])
      (100, world_at (at_hhmm 100 (4, 0))) = Inl JSONDecodeError
   \<and> main_loop_body (example_env (answer_on 100 [(''Fajr'', JStr ''05:12'')]) [])
      (100, world_at (at_hhmm 100 (4, 0))) = Inl KeyError"
  by code_simp

text \<open>
  Claim C6, at the inputs where the code departs from it. A prayer time string that
  does not parse raises \<open>ValueError\<close> out of \<open>schedule_daily_prayers\<close> and
  \<open>main_loop\<close>, and so does a test time with an hour or minute out of range;
  only a test time that does not parse is skipped.
\<close>

theorem malformed_time_leaves_main_loop:
  "schedule_daily_prayers 100 malformed_times (world_at (at_hhmm 100 (4, 0))) = Inl ValueError
   \<and> main_loop_body (example_env (answer_on 100 malformed_times) [])
        (100, world_at (at_hhmm 100 (4, 0))) = Inl ValueError
   \<and> schedule_test_time 100 ''99:99'' (world_at (at_hhmm 100 (4, 0))) = Inl ValueError
   \<and> map_sum id jobs (schedule_test_time 100 ''abc'' (world_at (at_hhmm 100 (4, 0)))) = Inr []"
  by code_simp


end
